theory Spec2Isabelle
  imports Main "HOL-Library.Word"
begin

unbundle bit_operations_syntax

section \<open>bioswrite: the SPI flash command line tool\<close>

text \<open>
  The repository's source is \<^verbatim>\<open>bioswrite-main.c\<close>: the option loop of \<^verbatim>\<open>main\<close> and the two
  commands \<^verbatim>\<open>read_from_spi\<close> and \<^verbatim>\<open>write_to_spi\<close>. They call a flash driver
  (\<^verbatim>\<open>spiflash_size\<close>, \<^verbatim>\<open>spiflash_read\<close>, \<^verbatim>\<open>spiflash_write_enable\<close>,
  \<^verbatim>\<open>spiflash_program_buffer\<close>, \<^verbatim>\<open>spiflash_init\<close>) that is declared in \<^verbatim>\<open>bioswrite.h\<close> and
  is not part of the source files. The three C functions are embedded from the source; the
  driver is modelled from the specification, and every definition that is says so.

  \<^verbatim>\<open>unsigned\<close> is a 32-bit word whose addition and subtraction wrap; a byte is an 8-bit word.
\<close>

type_synonym byte = "8 word"
type_synonym u32 = "32 word"

subsection \<open>The flash chip and the driver handle\<close>

text \<open>
  Modelled from the spec: FlashGeometry (section 3), \<open>total_size\<close>, \<open>page_size\<close> (program
  granularity) and \<open>sector_size\<close> (erase granularity), in bytes.
\<close>

record FlashGeometry =
  total_size :: u32
  page_size :: u32
  sector_size :: u32

text \<open>
  Modelled from the spec: the invariant of FlashGeometry, \<open>total_size % sector_size == 0\<close> and
  \<open>sector_size % page_size == 0\<close>, with sizes that are not zero.
\<close>

definition geometry_ok :: "FlashGeometry \<Rightarrow> bool" where
  "geometry_ok g =
     (0 < unat (page_size g) \<and> 0 < unat (sector_size g) \<and>
      unat (sector_size g) mod unat (page_size g) = 0 \<and>
      unat (total_size g) mod unat (sector_size g) = 0)"

text \<open>
  Modelled from the spec: the operations of the TransferEngine (section 4.3) are the hardware
  operations: a bulk read of a range (offset, length), write-enable, the erase of the sector
  at an offset and the programming of a page at an offset with its data. The handle records
  each one issued, oldest first.
\<close>

datatype hw_op =
  OpRead nat nat
  | OpWriteEnable
  | OpEraseSector nat
  | OpProgramPage nat "byte list"

text \<open>Modelled from the spec: the errors of the driver (sections 4 and 7).\<close>

datatype DriverError =
  UnknownChip | HardwareTimeout | WriteEnableFailed | EraseTimeout | ProgramTimeout

text \<open>
  Modelled from the spec: the driver handle \<^verbatim>\<open>spiflash_t\<close> of \<^verbatim>\<open>bioswrite.h\<close>, which is
  missing from the source files. The source shows its field \<^verbatim>\<open>verbose\<close> (set by \<^verbatim>\<open>main\<close>) and
  the two register pointers, printed only. The model keeps with the handle the state of the
  chip behind it: the geometry found by the probe, the content of the chip by byte address
  (\<open>cells\<close>), the write-enable latch of the glossary (\<open>wel\<close>), the operations issued so far
  (\<open>hw_log\<close>), and what the environment decides: whether the probe of \<^verbatim>\<open>spiflash_init\<close>
  succeeds (\<open>probe_ok\<close>) and whether the operation issued as number \<open>n\<close> fails (\<open>faulty n\<close>:
  an error status of the controller, a latch that does not set, a timeout).

  A driver function returns its result with the new state of the handle. The negative
  \<^verbatim>\<open>int\<close> that the C functions return on failure (the tool tests \<^verbatim>\<open>< 0\<close>) is \<open>Inl\<close> with
  the error of the spec; anything else is \<open>Inr\<close>.
\<close>

record spiflash_t =
  sp_verbose :: int
  geometry :: FlashGeometry
  cells :: "nat \<Rightarrow> byte"
  wel :: bool
  hw_log :: "hw_op list"
  probe_ok :: bool
  faulty :: "nat \<Rightarrow> bool"

text \<open>
  The next operation issued through the handle fails, and the handle after an operation has
  been issued.
\<close>

definition next_fails :: "spiflash_t \<Rightarrow> bool" where
  "next_fails sp = faulty sp (length (hw_log sp))"

definition issue :: "hw_op \<Rightarrow> spiflash_t \<Rightarrow> spiflash_t" where
  "issue c sp = sp\<lparr>hw_log := hw_log sp @ [c]\<rparr>"

subsection \<open>The TransferEngine\<close>

text \<open>
  Modelled from the spec: \<open>read(offset, buf)\<close> of section 4.3, which "bulk-reads \<open>buf.len()\<close>
  bytes starting at \<open>offset\<close>", needs no write-enable, and fails with \<open>HardwareTimeout\<close> if the
  controller reports an error status. The bursts of the controller are not told apart: the
  operation is one entry of the log, with the range it covers. For an address beyond the
  chip the result holds whatever \<open>cells\<close> has there; the spec does not say what the
  hardware returns.
\<close>

definition te_read :: "nat \<Rightarrow> nat \<Rightarrow> spiflash_t \<Rightarrow> (DriverError + byte list) \<times> spiflash_t" where
  "te_read off n sp =
     (if next_fails sp then (Inl HardwareTimeout, issue (OpRead off n) sp)
      else (Inr (map (cells sp) [off ..< off + n]), issue (OpRead off n) sp))"

text \<open>
  Modelled from the spec: \<open>write_enable()\<close> of section 4.3. It sets the write-enable latch or
  fails with \<open>WriteEnableFailed\<close>; its bounded retries are inside the one operation.
\<close>

definition te_write_enable :: "spiflash_t \<Rightarrow> (DriverError + unit) \<times> spiflash_t" where
  "te_write_enable sp =
     (if next_fails sp then (Inl WriteEnableFailed, issue OpWriteEnable sp)
      else (Inr (), issue OpWriteEnable (sp\<lparr>wel := True\<rparr>)))"

text \<open>
  Modelled from the spec: \<open>erase_sector(sector_offset)\<close> of section 4.3 and the glossary. An
  erase resets every bit of the sector to 1; it takes effect only with the write-enable latch
  set, and the latch clears when the command completes. A command that times out fails with
  \<open>EraseTimeout\<close>; what it leaves on the chip is not specified, and no theorem below reads it.
\<close>

definition erased_cells :: "nat \<Rightarrow> nat \<Rightarrow> (nat \<Rightarrow> byte) \<Rightarrow> nat \<Rightarrow> byte" where
  "erased_cells s n c = (\<lambda>a. if s \<le> a \<and> a < s + n then 0xFF else c a)"

definition te_erase_sector :: "nat \<Rightarrow> spiflash_t \<Rightarrow> (DriverError + unit) \<times> spiflash_t" where
  "te_erase_sector s sp =
     (if next_fails sp then (Inl EraseTimeout, issue (OpEraseSector s) sp)
      else (Inr (), issue (OpEraseSector s)
              (sp\<lparr>cells := (if wel sp
                               then erased_cells s (unat (sector_size (geometry sp))) (cells sp)
                               else cells sp),
                  wel := False\<rparr>)))"

text \<open>
  Modelled from the spec: \<open>program_page(offset, data)\<close> of section 4.3 and the glossary.
  Programming can only change bits from 1 to 0: each byte of the page becomes the bitwise AND
  of what the chip holds and the data. It takes effect only with the latch set, and the latch
  clears when the command completes. A timeout fails with \<open>ProgramTimeout\<close>.
\<close>

definition programmed_cells :: "nat \<Rightarrow> byte list \<Rightarrow> (nat \<Rightarrow> byte) \<Rightarrow> nat \<Rightarrow> byte" where
  "programmed_cells off d c =
     (\<lambda>a. if off \<le> a \<and> a < off + length d then c a AND d ! (a - off) else c a)"

definition te_program_page :: "nat \<Rightarrow> byte list \<Rightarrow> spiflash_t \<Rightarrow> (DriverError + unit) \<times> spiflash_t" where
  "te_program_page off d sp =
     (if next_fails sp then (Inl ProgramTimeout, issue (OpProgramPage off d) sp)
      else (Inr (), issue (OpProgramPage off d)
              (sp\<lparr>cells := (if wel sp then programmed_cells off d (cells sp) else cells sp),
                  wel := False\<rparr>)))"

subsection \<open>The ProgramPlanner\<close>

text \<open>
  Modelled from the spec: PageOp (section 3), \<open>{page_offset, page_size, needs_erase, payload}\<close>.
  The field \<open>page_size\<close> is named \<open>page_length\<close> here. \<open>needs_erase\<close> says that the sector
  holding the page is erased before the page is programmed; the planner sets it on the first
  page of a sector it erases, which schedules the erase once per sector.
\<close>

record PageOp =
  page_offset :: nat
  page_length :: nat
  needs_erase :: bool
  payload :: "byte list"

text \<open>
  Modelled from the spec: the planner "splits \<open>desired\<close> into page-aligned chunks". The
  chunk of \<open>n\<close> bytes of an image at the offset \<open>off\<close>:
\<close>

definition page_slice :: "byte list \<Rightarrow> nat \<Rightarrow> nat \<Rightarrow> byte list" where
  "page_slice img off n = take n (drop off img)"

text \<open>
  Modelled from the spec: a page is "writable without erase" when
  \<open>current & desired == desired\<close>, byte by byte (sections 3 and 4.4; the glossary:
  programming can only change bits from 1 to 0). The planner follows this rule throughout.
  By it the second write of the end-to-end example of section 8, \<open>00\<close> over \<open>AA\<close>, is
  writable without erase (\<open>AA & 00 == 00\<close>), although the example expects an erase there.
\<close>

definition programmable :: "byte list \<Rightarrow> byte list \<Rightarrow> bool" where
  "programmable cur des = list_all (\<lambda>(c, d). c AND d = d) (zip cur des)"

text \<open>
  Modelled from the spec: the offsets of the pages of the sector at \<open>s\<close>, in ascending order
  (a sector is a multiple of the page size), and the PageOp of the page at \<open>p\<close> with its
  chunk of the desired image.
\<close>

definition sector_pages :: "FlashGeometry \<Rightarrow> nat \<Rightarrow> nat list" where
  "sector_pages g s =
     map (\<lambda>k. s + k * unat (page_size g)) [0 ..< unat (sector_size g) div unat (page_size g)]"

definition mk_op :: "byte list \<Rightarrow> nat \<Rightarrow> bool \<Rightarrow> nat \<Rightarrow> PageOp" where
  "mk_op desired n e p =
     \<lparr>page_offset = p, page_length = n, needs_erase = e, payload = page_slice desired p n\<rparr>"

text \<open>
  Modelled from the spec: \<open>plan(current, desired, geometry, force)\<close> of section 4.4, for the
  pages of the sector at \<open>s\<close>. With \<open>force\<close> every page is erased and programmed. Otherwise a
  page equal to the desired one is skipped, a page that differs and is writable without erase
  is programmed, and a page that is not writable without erase has its sector erased, once,
  followed by the programming of every page of that sector from \<open>desired\<close>.
\<close>

definition plan_sector ::
  "byte list \<Rightarrow> byte list \<Rightarrow> FlashGeometry \<Rightarrow> bool \<Rightarrow> nat \<Rightarrow> PageOp list" where
  "plan_sector current desired g force s =
     (let n = unat (page_size g);
          changed = filter (\<lambda>p. page_slice current p n \<noteq> page_slice desired p n)
                      (sector_pages g s)
      in if force \<or>
            list_ex (\<lambda>p. \<not> programmable (page_slice current p n) (page_slice desired p n)) changed
         then map (\<lambda>p. mk_op desired n (p = s) p) (sector_pages g s)
         else map (mk_op desired n False) changed)"

text \<open>
  Modelled from the spec: the plan of the whole image, sector after sector and page after
  page, in ascending offset order. \<open>current\<close> and \<open>desired\<close> are images of the chip from
  address 0 ("the full desired image"), so that a page offset is a chip address.
\<close>

definition plan :: "byte list \<Rightarrow> byte list \<Rightarrow> FlashGeometry \<Rightarrow> bool \<Rightarrow> PageOp list" where
  "plan current desired g force =
     concat (map (\<lambda>k. plan_sector current desired g force (k * unat (sector_size g)))
               [0 ..< length desired div unat (sector_size g)])"

subsection \<open>Executing a plan\<close>

text \<open>Modelled from the spec: the offset of the sector that holds the address \<open>a\<close>.\<close>

definition sector_base :: "FlashGeometry \<Rightarrow> nat \<Rightarrow> nat" where
  "sector_base g a = (a div unat (sector_size g)) * unat (sector_size g)"

text \<open>
  Modelled from the spec: "re-issuing \<open>write_enable\<close> before every erase/program call is
  mandatory" (section 4.3). An erase and a program are each issued after a write-enable of
  their own, and a write-enable that fails ends the step.
\<close>

definition erase_step :: "nat \<Rightarrow> spiflash_t \<Rightarrow> (DriverError + unit) \<times> spiflash_t" where
  "erase_step s sp =
     (case te_write_enable sp of
        (Inl e, sp1) \<Rightarrow> (Inl e, sp1)
      | (Inr u, sp1) \<Rightarrow> te_erase_sector s sp1)"

definition program_step :: "nat \<Rightarrow> byte list \<Rightarrow> spiflash_t \<Rightarrow> (DriverError + unit) \<times> spiflash_t" where
  "program_step off d sp =
     (case te_write_enable sp of
        (Inl e, sp1) \<Rightarrow> (Inl e, sp1)
      | (Inr u, sp1) \<Rightarrow> te_program_page off d sp1)"

definition run_op :: "PageOp \<Rightarrow> spiflash_t \<Rightarrow> (DriverError + unit) \<times> spiflash_t" where
  "run_op p sp =
     (if needs_erase p
      then (case erase_step (sector_base (geometry sp) (page_offset p)) sp of
              (Inl e, sp1) \<Rightarrow> (Inl e, sp1)
            | (Inr u, sp1) \<Rightarrow> program_step (page_offset p) (payload p) sp1)
      else program_step (page_offset p) (payload p) sp)"

text \<open>
  Modelled from the spec: the facade "executes each PageOp via TransferEngine in ascending
  offset order" and "surfaces the first failure without attempting further operations"
  (section 4.6).
\<close>

fun run_plan :: "PageOp list \<Rightarrow> spiflash_t \<Rightarrow> (DriverError + unit) \<times> spiflash_t" where
  "run_plan [] sp = (Inr (), sp)"
| "run_plan (p # ps) sp =
     (case run_op p sp of
        (Inl e, sp1) \<Rightarrow> (Inl e, sp1)
      | (Inr u, sp1) \<Rightarrow> run_plan ps sp1)"

subsection \<open>The driver functions the tool calls\<close>

text \<open>Modelled from the spec: \<open>size()\<close> "simply returns \<open>total_size\<close>" (section 4.2).\<close>

definition spiflash_size :: "spiflash_t \<Rightarrow> u32" where
  "spiflash_size sp = total_size (geometry sp)"

text \<open>
  Modelled from the spec: \<open>init()\<close> maps the registers and probes the geometry, and fails
  when the chip is not a known one. It issues none of the four operations of the log.
\<close>

definition spiflash_init :: "spiflash_t \<Rightarrow> (DriverError + unit) \<times> spiflash_t" where
  "spiflash_init sp = (if probe_ok sp then (Inr (), sp) else (Inl UnknownChip, sp))"

text \<open>
  Modelled from the spec: \<^verbatim>\<open>spiflash_read(sp, offset, buf, length)\<close> is the bulk read of the
  TransferEngine. The bounds validation of the spec's facade is the test that
  \<^verbatim>\<open>read_from_spi\<close> makes before the call, which is in the source and embedded from there.
\<close>

definition spiflash_read :: "spiflash_t \<Rightarrow> u32 \<Rightarrow> u32 \<Rightarrow> (DriverError + byte list) \<times> spiflash_t" where
  "spiflash_read sp offset len = te_read (unat offset) (unat len) sp"

text \<open>Modelled from the spec: \<^verbatim>\<open>spiflash_write_enable(sp)\<close> is \<open>write_enable()\<close>.\<close>

definition spiflash_write_enable :: "spiflash_t \<Rightarrow> (DriverError + unit) \<times> spiflash_t" where
  "spiflash_write_enable sp = te_write_enable sp"

text \<open>
  Modelled from the spec: \<^verbatim>\<open>spiflash_program_buffer(sp, offset, buf, length)\<close> is the write of
  the facade (section 4.6) after its bounds validation, which \<^verbatim>\<open>write_to_spi\<close> makes in the
  source: it reads the current content, builds the plan and executes it. The content read
  back is the entire flash (the default contract of section 9), and the desired image is
  that content with the first \<open>length\<close> bytes of \<open>buf\<close> laid over it at \<open>offset\<close>.

  The call has no argument for the force mode, and the variable \<^verbatim>\<open>force\<close> of
  \<^verbatim>\<open>bioswrite-main.c\<close> is \<^verbatim>\<open>static\<close>, out of the driver's sight: the planner runs with
  \<open>force = False\<close>.
\<close>

definition desired_image :: "byte list \<Rightarrow> nat \<Rightarrow> byte list \<Rightarrow> byte list" where
  "desired_image current off data = take off current @ data @ drop (off + length data) current"

definition spiflash_program_buffer ::
  "spiflash_t \<Rightarrow> u32 \<Rightarrow> byte list \<Rightarrow> u32 \<Rightarrow> (DriverError + unit) \<times> spiflash_t" where
  "spiflash_program_buffer sp offset buf len =
     (case te_read 0 (unat (total_size (geometry sp))) sp of
        (Inl e, sp1) \<Rightarrow> (Inl e, sp1)
      | (Inr current, sp1) \<Rightarrow>
          run_plan
            (plan current (desired_image current (unat offset) (take (unat len) buf))
               (geometry sp) False)
            sp1)"


section \<open>The command line tool\<close>

subsection \<open>What the tool prints, and the world it runs in\<close>

text \<open>
  Each \<^verbatim>\<open>printf\<close>, \<^verbatim>\<open>fprintf(stderr, ...)\<close> and \<^verbatim>\<open>perror\<close> of the source is one message, with
  the values it prints.
\<close>

datatype message =
  MsgUsage
  | MsgExcessArguments
  | MsgInitFailed
  | MsgPointers
  | MsgFlashSize u32
  | MsgOffsetBeyondFlash u32 u32
  | MsgReadAndWrite
  | MsgOutOfRange u32 u32 u32
  | MsgPerror string
  | MsgReading u32 u32
  | MsgReadFailed u32 u32
  | MsgShortRead u32 u32
  | MsgNoWriteEnable
  | MsgWriting u32 u32
  | MsgProgramFailed
  | MsgSuccess

text \<open>Standard output receives the messages of \<^verbatim>\<open>printf\<close> and, for the file name "-", the dump.\<close>

datatype out_item = Text message | Data "byte list"

text \<open>
  The state the three functions work on: the two static variables \<^verbatim>\<open>force\<close> and \<^verbatim>\<open>verbose\<close>,
  the driver handle \<^verbatim>\<open>sp\<close> with the chip behind it, the files by name, standard input,
  standard output and standard error, and what the environment decides: whether
  \<^verbatim>\<open>fopen(name, "w")\<close> succeeds (\<open>creatable\<close>), whether \<^verbatim>\<open>calloc\<close> of \<open>n\<close> bytes succeeds
  (\<open>calloc_ok\<close>) and whether the \<^verbatim>\<open>calloc\<close> of the handle in \<^verbatim>\<open>main\<close> does (\<open>handle_ok\<close>).
\<close>

record world =
  force :: int
  verbose :: int
  spi :: spiflash_t
  files :: "string \<Rightarrow> byte list option"
  creatable :: "string \<Rightarrow> bool"
  stdin_bytes :: "byte list"
  stdout_log :: "out_item list"
  stderr_log :: "message list"
  calloc_ok :: "nat \<Rightarrow> bool"
  handle_ok :: bool

definition EXIT_SUCCESS :: int where
  "EXIT_SUCCESS = 0"

definition EXIT_FAILURE :: int where
  "EXIT_FAILURE = 1"

definition eprint :: "message \<Rightarrow> world \<Rightarrow> world" where
  "eprint m w = w\<lparr>stderr_log := stderr_log w @ [m]\<rparr>"

definition print :: "message \<Rightarrow> world \<Rightarrow> world" where
  "print m w = w\<lparr>stdout_log := stdout_log w @ [Text m]\<rparr>"

text \<open>\<^verbatim>\<open>if (verbose) printf(...)\<close>.\<close>

definition vprint :: "message \<Rightarrow> world \<Rightarrow> world" where
  "vprint m w = (if verbose w \<noteq> 0 then print m w else w)"

subsection \<open>\<^verbatim>\<open>read_from_spi\<close>\<close>

text \<open>
  Lines 49 to 107. A zero \<open>length\<close> becomes \<open>flash_size - offset\<close>; the range test is made on
  \<^verbatim>\<open>unsigned\<close> values, so \<open>offset + length\<close> is the sum modulo \<open>2^32\<close>; the buffer is
  allocated; the flash is read; only then is the destination opened (standard output for
  "-", else \<^verbatim>\<open>fopen(filename, "w")\<close>, which creates or truncates the file) and the buffer
  written to it. Every \<^verbatim>\<open>return EXIT_FAILURE\<close> of the source is a branch.
\<close>

definition read_from_spi :: "string \<Rightarrow> u32 \<Rightarrow> u32 \<Rightarrow> world \<Rightarrow> int \<times> world" where
  "read_from_spi filename offset length0 w =
     (let flash_size = spiflash_size (spi w);
          len = (if length0 = 0 then flash_size - offset else length0)
      in if offset + len > flash_size
         then (EXIT_FAILURE, eprint (MsgOutOfRange offset len flash_size) w)
         else if \<not> calloc_ok w (unat len)
         then (EXIT_FAILURE, eprint (MsgPerror ''malloc'') w)
         else (let w1 = vprint (MsgReading offset len) w
               in case spiflash_read (spi w1) offset len of
                    (Inl e, sp1) \<Rightarrow>
                      (EXIT_FAILURE, eprint (MsgReadFailed offset len) (w1\<lparr>spi := sp1\<rparr>))
                  | (Inr buf, sp1) \<Rightarrow>
                      (if filename = ''-''
                       then (EXIT_SUCCESS,
                             w1\<lparr>spi := sp1, stdout_log := stdout_log w1 @ [Data buf]\<rparr>)
                       else if \<not> creatable w1 filename
                       then (EXIT_FAILURE, eprint (MsgPerror filename) (w1\<lparr>spi := sp1\<rparr>))
                       else (EXIT_SUCCESS,
                             w1\<lparr>spi := sp1, files := (files w1)(filename \<mapsto> buf)\<rparr>))))"

subsection \<open>\<^verbatim>\<open>write_to_spi\<close>\<close>

text \<open>
  \<^verbatim>\<open>fread(buf, 1, flash_size+1, file)\<close> on a buffer of \<open>flash_size+1\<close> zero bytes: the bytes
  obtained are the first \<open>flash_size+1\<close> bytes of the input (the sum is \<^verbatim>\<open>unsigned\<close>), and the
  rest of the buffer stays zero. The source does not test this \<^verbatim>\<open>calloc\<close>; the model takes
  it to succeed.
\<close>

definition fread_bytes :: "u32 \<Rightarrow> byte list \<Rightarrow> byte list" where
  "fread_bytes flash_size input = take (unat (flash_size + 1)) input"

definition fread_buf :: "u32 \<Rightarrow> byte list \<Rightarrow> byte list" where
  "fread_buf flash_size input =
     fread_bytes flash_size input @
     replicate (unat (flash_size + 1) - length (fread_bytes flash_size input)) 0"

text \<open>The input of a write: standard input for "-", else the file, if it can be opened.\<close>

definition open_input :: "string \<Rightarrow> world \<Rightarrow> byte list option" where
  "open_input filename w = (if filename = ''-'' then Some (stdin_bytes w) else files w filename)"

text \<open>
  Lines 110 to 178. The input is opened and read; a zero \<open>length\<close> becomes the number of
  bytes read, and a nonzero one that differs from it ends the write; then the range test (on
  \<^verbatim>\<open>unsigned\<close> values, as in the read), then one \<^verbatim>\<open>spiflash_write_enable\<close>, then
  \<^verbatim>\<open>spiflash_program_buffer\<close>. The variable \<^verbatim>\<open>force\<close> is read nowhere.
\<close>

definition write_to_spi :: "string \<Rightarrow> u32 \<Rightarrow> u32 \<Rightarrow> world \<Rightarrow> int \<times> world" where
  "write_to_spi filename offset length0 w =
     (case open_input filename w of
        None \<Rightarrow> (EXIT_FAILURE, eprint (MsgPerror filename) w)
      | Some input \<Rightarrow>
          (let flash_size = spiflash_size (spi w);
               buf = fread_buf flash_size input;
               read_len = (word_of_nat (length (fread_bytes flash_size input)) :: u32)
           in if length0 \<noteq> 0 \<and> read_len \<noteq> length0
              then (EXIT_FAILURE, eprint (MsgShortRead read_len length0) w)
              else (let len = (if length0 = 0 then read_len else length0)
                    in if offset + len > flash_size
                       then (EXIT_FAILURE, eprint (MsgOutOfRange offset len flash_size) w)
                       else (case spiflash_write_enable (spi w) of
                               (Inl e, sp1) \<Rightarrow>
                                 (EXIT_FAILURE, eprint MsgNoWriteEnable (w\<lparr>spi := sp1\<rparr>))
                             | (Inr u, sp1) \<Rightarrow>
                                 (let w1 = vprint (MsgWriting offset len) (w\<lparr>spi := sp1\<rparr>)
                                  in case spiflash_program_buffer (spi w1) offset buf len of
                                       (Inl e, sp2) \<Rightarrow>
                                         (EXIT_FAILURE,
                                          eprint MsgProgramFailed (w1\<lparr>spi := sp2\<rparr>))
                                     | (Inr u2, sp2) \<Rightarrow>
                                         (EXIT_SUCCESS, vprint MsgSuccess (w1\<lparr>spi := sp2\<rparr>)))))))"

subsection \<open>\<^verbatim>\<open>main\<close>\<close>

text \<open>
  What \<^verbatim>\<open>getopt_long\<close> returns for one option of the command line, with the value
  \<^verbatim>\<open>strtoul\<close> gives for \<^verbatim>\<open>-O\<close> and \<^verbatim>\<open>-n\<close> converted to \<^verbatim>\<open>unsigned\<close>. \<open>OptHelp\<close> is both
  \<^verbatim>\<open>'h'\<close> and \<^verbatim>\<open>'?'\<close>; \<open>OptOther\<close> is any other return value, the \<^verbatim>\<open>default\<close> of the switch.
\<close>

datatype option_char =
  OptO u32 | OptN u32 | OptV | OptF | OptR string | OptW string | OptHelp | OptOther

record arguments =
  do_read :: bool
  do_write :: bool
  arg_offset :: u32
  arg_length :: u32
  arg_filename :: string

definition no_arguments :: arguments where
  "no_arguments =
     \<lparr>do_read = False, do_write = False, arg_offset = 0, arg_length = 0, arg_filename = []\<rparr>"

text \<open>The option loop, lines 199 to 230: \<open>Inl\<close> is a \<^verbatim>\<open>return\<close> from inside the loop.\<close>

fun parse_options :: "option_char list \<Rightarrow> arguments \<Rightarrow> world \<Rightarrow> (int \<times> world) + (arguments \<times> world)" where
  "parse_options [] a w = Inr (a, w)"
| "parse_options (OptO n # os) a w = parse_options os (a\<lparr>arg_offset := n\<rparr>) w"
| "parse_options (OptN n # os) a w = parse_options os (a\<lparr>arg_length := n\<rparr>) w"
| "parse_options (OptV # os) a w = parse_options os a (w\<lparr>verbose := verbose w + 1\<rparr>)"
| "parse_options (OptF # os) a w = parse_options os a (w\<lparr>force := force w + 1\<rparr>)"
| "parse_options (OptR f # os) a w = parse_options os (a\<lparr>do_read := True, arg_filename := f\<rparr>) w"
| "parse_options (OptW f # os) a w = parse_options os (a\<lparr>do_write := True, arg_filename := f\<rparr>) w"
| "parse_options (OptHelp # os) a w = Inl (EXIT_SUCCESS, print MsgUsage w)"
| "parse_options (OptOther # os) a w = Inl (EXIT_FAILURE, eprint MsgUsage w)"

text \<open>
  Lines 180 to 281, for the options \<open>opts\<close> and \<open>excess\<close> arguments left after them. The
  handle is allocated, the options are read, the driver is initialised (\<open>-1\<close> when that
  fails), an offset beyond the flash size is refused, and the command is run.
\<close>

definition main :: "option_char list \<Rightarrow> nat \<Rightarrow> world \<Rightarrow> int \<times> world" where
  "main opts excess w0 =
     (if \<not> handle_ok w0 then (EXIT_FAILURE, w0)
      else case parse_options opts no_arguments w0 of
        Inl r \<Rightarrow> r
      | Inr (a, w) \<Rightarrow>
          (if excess \<noteq> 0 then (EXIT_FAILURE, eprint MsgExcessArguments w)
           else case spiflash_init ((spi w)\<lparr>sp_verbose := verbose w\<rparr>) of
                  (Inl e, sp1) \<Rightarrow> (- 1, eprint MsgInitFailed (w\<lparr>spi := sp1\<rparr>))
                | (Inr u, sp1) \<Rightarrow>
                    (let w1 = vprint MsgPointers (w\<lparr>spi := sp1\<rparr>);
                         flash_size = spiflash_size (spi w1);
                         w2 = vprint (MsgFlashSize flash_size) w1
                     in if arg_offset a > flash_size
                        then (EXIT_FAILURE, eprint (MsgOffsetBeyondFlash (arg_offset a) flash_size) w2)
                        else if do_read a \<and> do_write a
                        then (EXIT_FAILURE, eprint MsgReadAndWrite w2)
                        else if do_read a
                        then read_from_spi (arg_filename a) (arg_offset a) (arg_length a) w2
                        else if do_write a
                        then write_to_spi (arg_filename a) (arg_offset a) (arg_length a) w2
                        else (EXIT_SUCCESS, w2))))"


section \<open>The vocabulary of the properties\<close>

text \<open>An erase or a program command: the two operations that change the chip.\<close>

fun is_modify :: "hw_op \<Rightarrow> bool" where
  "is_modify (OpEraseSector s) = True"
| "is_modify (OpProgramPage off d) = True"
| "is_modify c = False"

text \<open>The operation reads the flash address \<open>a\<close> from the hardware.\<close>

fun op_reads :: "hw_op \<Rightarrow> nat \<Rightarrow> bool" where
  "op_reads (OpRead off n) a = (off \<le> a \<and> a < off + n)"
| "op_reads c a = False"

text \<open>The operations issued between two states of the handle.\<close>

definition new_ops :: "spiflash_t \<Rightarrow> spiflash_t \<Rightarrow> hw_op list" where
  "new_ops sp sp' = drop (length (hw_log sp)) (hw_log sp')"

text \<open>Every erase and every program command of the list stands right after a write-enable.\<close>

definition enable_first :: "hw_op list \<Rightarrow> bool" where
  "enable_first ops =
     (\<forall>i<length ops. is_modify (ops ! i) \<longrightarrow> 0 < i \<and> ops ! (i - 1) = OpWriteEnable)"

text \<open>
  The operations \<open>ops\<close>, issued as numbers \<open>n\<close>, \<open>n + 1\<close>, ... against the fault pattern \<open>f\<close>:
  a run that failed has issued at least one operation, its last one failed and no earlier
  one did; a run that succeeded has no failed operation.
\<close>

definition outcome_ok :: "(nat \<Rightarrow> bool) \<Rightarrow> nat \<Rightarrow> bool \<Rightarrow> hw_op list \<Rightarrow> bool" where
  "outcome_ok f n failed ops =
     (if failed
      then ops \<noteq> [] \<and> f (n + (length ops - 1)) \<and> (\<forall>i. Suc i < length ops \<longrightarrow> \<not> f (n + i))
      else (\<forall>i<length ops. \<not> f (n + i)))"

text \<open>
  What every driver function keeps: the fault pattern and the geometry stay, the log only
  grows, and the operations issued agree with the result.
\<close>

definition log_inv :: "spiflash_t \<Rightarrow> (DriverError + 'a) \<times> spiflash_t \<Rightarrow> bool" where
  "log_inv sp r =
     (faulty (snd r) = faulty sp \<and> geometry (snd r) = geometry sp \<and>
      hw_log (snd r) = hw_log sp @ new_ops sp (snd r) \<and>
      outcome_ok (faulty sp) (length (hw_log sp)) (isl (fst r)) (new_ops sp (snd r)))"

text \<open>The operations that executing one PageOp issues when none of them fails.\<close>

definition op_cmds :: "FlashGeometry \<Rightarrow> PageOp \<Rightarrow> hw_op list" where
  "op_cmds g p =
     (if needs_erase p then [OpWriteEnable, OpEraseSector (sector_base g (page_offset p))] else []) @
     [OpWriteEnable, OpProgramPage (page_offset p) (payload p)]"

text \<open>
  What lines 159 to 172 of \<^verbatim>\<open>write_to_spi\<close> do with the handle: one write-enable, then
  \<^verbatim>\<open>spiflash_program_buffer\<close>.
\<close>

definition enable_and_program ::
  "spiflash_t \<Rightarrow> u32 \<Rightarrow> byte list \<Rightarrow> u32 \<Rightarrow> (DriverError + unit) \<times> spiflash_t" where
  "enable_and_program sp offset buf len =
     (case spiflash_write_enable sp of
        (Inl e, sp1) \<Rightarrow> (Inl e, sp1)
      | (Inr u, sp1) \<Rightarrow> spiflash_program_buffer sp1 offset buf len)"

text \<open>
  The byte the desired image holds at address \<open>a\<close>: the payload \<open>data\<close> laid at \<open>off\<close> over
  the content \<open>c\<close> of the chip.
\<close>

definition desired_cell :: "(nat \<Rightarrow> byte) \<Rightarrow> nat \<Rightarrow> byte list \<Rightarrow> nat \<Rightarrow> byte" where
  "desired_cell c off data a = (if off \<le> a \<and> a < off + length data then data ! (a - off) else c a)"

text \<open>The number of bytes \<^verbatim>\<open>write_to_spi\<close> reads from its input (0 if it cannot be opened).\<close>

definition bytes_read :: "string \<Rightarrow> world \<Rightarrow> u32" where
  "bytes_read filename w =
     (case open_input filename w of
        None \<Rightarrow> 0
      | Some input \<Rightarrow> word_of_nat (length (fread_bytes (spiflash_size (spi w)) input)))"

text \<open>The dumps written to standard output, without the messages.\<close>

definition dumped :: "world \<Rightarrow> byte list list" where
  "dumped w = concat (map (\<lambda>x. case x of Data d \<Rightarrow> [d] | Text m \<Rightarrow> []) (stdout_log w))"

subsection \<open>Concrete chips\<close>

text \<open>
  A chip of eight bytes, in two sectors of two pages of two bytes, and the geometry of the
  end-to-end example of the spec (section 8).
\<close>

definition small_geometry :: FlashGeometry where
  "small_geometry = \<lparr>total_size = 8, page_size = 2, sector_size = 4\<rparr>"

definition example_geometry :: FlashGeometry where
  "example_geometry = \<lparr>total_size = 0x100000, page_size = 256, sector_size = 4096\<rparr>"

text \<open>A handle on a chip that holds the byte \<open>v\<close> everywhere, with the fault pattern \<open>f\<close>.\<close>

definition chip :: "FlashGeometry \<Rightarrow> byte \<Rightarrow> (nat \<Rightarrow> bool) \<Rightarrow> spiflash_t" where
  "chip g v f =
     \<lparr>sp_verbose = 0, geometry = g, cells = (\<lambda>a. v), wel = False, hw_log = [],
      probe_ok = True, faulty = f\<rparr>"

text \<open>A world with the one file \<^verbatim>\<open>img\<close>, where every allocation and every \<^verbatim>\<open>fopen\<close> succeeds.\<close>

definition bench :: "spiflash_t \<Rightarrow> byte list \<Rightarrow> world" where
  "bench sp img =
     \<lparr>force = 0, verbose = 0, spi = sp, files = [''img'' \<mapsto> img], creatable = (\<lambda>f. True),
      stdin_bytes = [], stdout_log = [], stderr_log = [], calloc_ok = (\<lambda>n. True),
      handle_ok = True\<rparr>"


section \<open>Lemmas\<close>

subsection \<open>The log of operations\<close>

text \<open>
  The two properties of a list of operations compose: a step that succeeded, followed by any
  step, gives a list with the same properties. The driver functions are built from the four
  operations by exactly this sequencing, which stops at the first failure.
\<close>

lemma enable_first_append: "enable_first xs \<Longrightarrow> enable_first ys \<Longrightarrow> enable_first (xs @ ys)"
  unfolding enable_first_def
proof (intro allI impI)
  fix i
  assume xs: "\<forall>i<length xs. is_modify (xs ! i) \<longrightarrow> 0 < i \<and> xs ! (i - 1) = OpWriteEnable"
    and ys: "\<forall>i<length ys. is_modify (ys ! i) \<longrightarrow> 0 < i \<and> ys ! (i - 1) = OpWriteEnable"
    and i: "i < length (xs @ ys)" and m: "is_modify ((xs @ ys) ! i)"
  show "0 < i \<and> (xs @ ys) ! (i - 1) = OpWriteEnable"
  proof (cases "i < length xs")
    case True
    with xs m show ?thesis by (auto simp: nth_append)
  next
    case False
    then have "i - length xs < length ys" "is_modify (ys ! (i - length xs))"
      using i m by (auto simp: nth_append)
    with ys have "0 < i - length xs" "ys ! (i - length xs - 1) = OpWriteEnable"
      by auto
    then show ?thesis using False
      by (auto simp: nth_append)
  qed
qed

lemma outcome_ok_append:
  assumes "outcome_ok f n False xs" and "outcome_ok f (n + length xs) b ys"
  shows "outcome_ok f n b (xs @ ys)"
proof -
  have early: "\<not> f (n + i)" if "i < length xs" for i
    using assms(1) that by (simp add: outcome_ok_def)
  show ?thesis
  proof (cases b)
    case True
    then have ys: "ys \<noteq> []" "f (n + length xs + (length ys - 1))"
      "\<And>i. Suc i < length ys \<Longrightarrow> \<not> f (n + length xs + i)"
      using assms(2) by (auto simp: outcome_ok_def)
    have "\<not> f (n + i)" if "Suc i < length (xs @ ys)" for i
    proof (cases "i < length xs")
      case True
      then show ?thesis by (rule early)
    next
      case False
      then have "Suc (i - length xs) < length ys" using that by auto
      from ys(3) [OF this] False show ?thesis by (simp add: add.assoc)
    qed
    moreover have "n + (length (xs @ ys) - 1) = n + length xs + (length ys - 1)"
      using ys(1) by (cases ys) auto
    ultimately show ?thesis using True ys(1,2)
      by (simp add: outcome_ok_def add.assoc)
  next
    case False
    then have ys: "\<And>i. i < length ys \<Longrightarrow> \<not> f (n + length xs + i)"
      using assms(2) by (auto simp: outcome_ok_def)
    have "\<not> f (n + i)" if "i < length (xs @ ys)" for i
    proof (cases "i < length xs")
      case True
      then show ?thesis by (rule early)
    next
      case False
      then have "i - length xs < length ys" using that by auto
      from ys [OF this] False show ?thesis by (simp add: add.assoc)
    qed
    then show ?thesis using False by (simp add: outcome_ok_def)
  qed
qed

lemma new_ops_trans:
  assumes "hw_log sp1 = hw_log sp @ new_ops sp sp1" and "hw_log sp2 = hw_log sp1 @ new_ops sp1 sp2"
  shows "new_ops sp sp2 = new_ops sp sp1 @ new_ops sp1 sp2"
    and "hw_log sp2 = hw_log sp @ new_ops sp sp2"
proof -
  have "hw_log sp2 = hw_log sp @ (new_ops sp sp1 @ new_ops sp1 sp2)"
    using assms by simp
  then show "new_ops sp sp2 = new_ops sp sp1 @ new_ops sp1 sp2"
    by (simp add: new_ops_def [of sp sp2])
  then show "hw_log sp2 = hw_log sp @ new_ops sp sp2"
    using assms by simp
qed

lemma log_inv_bind:
  assumes m: "log_inv sp (m sp)"
    and k: "\<And>v sp1. m sp = (Inr v, sp1) \<Longrightarrow> log_inv sp1 (k v sp1)"
  shows "log_inv sp (case m sp of (Inl e, sp1) \<Rightarrow> (Inl e, sp1) | (Inr v, sp1) \<Rightarrow> k v sp1)"
proof (cases "m sp")
  case (Pair r sp1)
  show ?thesis
  proof (cases r)
    case (Inl e)
    with Pair m show ?thesis by (simp add: log_inv_def)
  next
    case (Inr v)
    with Pair have eq: "m sp = (Inr v, sp1)" by simp
    note a = m [unfolded eq log_inv_def, simplified]
    note b = k [OF eq, unfolded log_inv_def]
    have len: "length (hw_log sp1) = length (hw_log sp) + length (new_ops sp sp1)"
      using a by (metis length_append)
    have "outcome_ok (faulty sp) (length (hw_log sp)) (isl (fst (k v sp1)))
            (new_ops sp sp1 @ new_ops sp1 (snd (k v sp1)))"
      using a b len by (intro outcome_ok_append) simp_all
    then show ?thesis
      using a b new_ops_trans [of sp1 sp "snd (k v sp1)"]
      by (simp add: eq log_inv_def)
  qed
qed

lemma enable_first_bind:
  assumes m: "log_inv sp (m sp)" "enable_first (new_ops sp (snd (m sp)))"
    and k: "\<And>v sp1. m sp = (Inr v, sp1) \<Longrightarrow>
               log_inv sp1 (k v sp1) \<and> enable_first (new_ops sp1 (snd (k v sp1)))"
  shows "enable_first (new_ops sp
           (snd (case m sp of (Inl e, sp1) \<Rightarrow> (Inl e, sp1) | (Inr v, sp1) \<Rightarrow> k v sp1)))"
proof (cases "m sp")
  case (Pair r sp1)
  show ?thesis
  proof (cases r)
    case (Inl e)
    with Pair m show ?thesis by simp
  next
    case (Inr v)
    with Pair have eq: "m sp = (Inr v, sp1)" by simp
    note a = m(1) [unfolded eq log_inv_def, simplified]
    note b = k [OF eq, unfolded log_inv_def]
    have "new_ops sp (snd (k v sp1)) = new_ops sp sp1 @ new_ops sp1 (snd (k v sp1))"
      using a b by (intro new_ops_trans(1)) simp_all
    then show ?thesis
      using m(2) b by (simp add: eq enable_first_append)
  qed
qed

lemma log_inv_prim:
  "log_inv sp (te_read off n sp)"
  "log_inv sp (te_write_enable sp)"
  "log_inv sp (te_erase_sector s sp)"
  "log_inv sp (te_program_page off d sp)"
  by (simp_all add: log_inv_def te_read_def te_write_enable_def te_erase_sector_def
      te_program_page_def issue_def new_ops_def outcome_ok_def next_fails_def)

lemma new_ops_prim:
  "new_ops sp (snd (te_read off n sp)) = [OpRead off n]"
  "new_ops sp (snd (te_write_enable sp)) = [OpWriteEnable]"
  "new_ops sp (snd (te_erase_sector s sp)) = [OpEraseSector s]"
  "new_ops sp (snd (te_program_page off d sp)) = [OpProgramPage off d]"
  by (simp_all add: te_read_def te_write_enable_def te_erase_sector_def
      te_program_page_def issue_def new_ops_def)

lemma log_inv_erase_step: "log_inv sp (erase_step s sp)"
  unfolding erase_step_def by (intro log_inv_bind log_inv_prim)

lemma log_inv_program_step: "log_inv sp (program_step off d sp)"
  unfolding program_step_def by (intro log_inv_bind log_inv_prim)

lemma enable_first_erase_step: "enable_first (new_ops sp (snd (erase_step s sp)))"
proof (cases "te_write_enable sp")
  case (Pair r sp1)
  have l: "hw_log sp1 = hw_log sp @ [OpWriteEnable]"
    using Pair by (auto simp: te_write_enable_def issue_def split: if_splits)
  have "hw_log (snd (te_erase_sector s sp1)) = hw_log sp1 @ [OpEraseSector s]"
    by (simp add: te_erase_sector_def issue_def)
  with l have "new_ops sp (snd (te_erase_sector s sp1)) = [OpWriteEnable, OpEraseSector s]"
    by (simp add: new_ops_def)
  moreover have "new_ops sp sp1 = [OpWriteEnable]"
    using l by (simp add: new_ops_def)
  ultimately show ?thesis
    using Pair by (cases r) (simp_all add: erase_step_def enable_first_def less_Suc_eq)
qed

lemma enable_first_program_step: "enable_first (new_ops sp (snd (program_step off d sp)))"
proof (cases "te_write_enable sp")
  case (Pair r sp1)
  have l: "hw_log sp1 = hw_log sp @ [OpWriteEnable]"
    using Pair by (auto simp: te_write_enable_def issue_def split: if_splits)
  have "hw_log (snd (te_program_page off d sp1)) = hw_log sp1 @ [OpProgramPage off d]"
    by (simp add: te_program_page_def issue_def)
  with l have "new_ops sp (snd (te_program_page off d sp1)) = [OpWriteEnable, OpProgramPage off d]"
    by (simp add: new_ops_def)
  moreover have "new_ops sp sp1 = [OpWriteEnable]"
    using l by (simp add: new_ops_def)
  ultimately show ?thesis
    using Pair by (cases r) (simp_all add: program_step_def enable_first_def less_Suc_eq)
qed

lemma log_inv_run_op: "log_inv sp (run_op p sp)"
proof (cases "needs_erase p")
  case True
  then show ?thesis
    unfolding run_op_def if_P [OF True]
    by (intro log_inv_bind log_inv_erase_step log_inv_program_step)
next
  case False
  then show ?thesis
    by (simp add: run_op_def log_inv_program_step)
qed

lemma enable_first_run_op: "enable_first (new_ops sp (snd (run_op p sp)))"
proof (cases "needs_erase p")
  case True
  then show ?thesis
    unfolding run_op_def if_P [OF True]
    by (intro enable_first_bind conjI log_inv_erase_step log_inv_program_step
        enable_first_erase_step enable_first_program_step)
next
  case False
  then show ?thesis
    by (simp add: run_op_def enable_first_program_step)
qed

lemma run_plan_inv:
  "log_inv sp (run_plan ps sp) \<and> enable_first (new_ops sp (snd (run_plan ps sp)))"
proof (induction ps arbitrary: sp)
  case Nil
  show ?case
    by (simp add: log_inv_def new_ops_def outcome_ok_def enable_first_def)
next
  case (Cons p ps)
  show ?case
    unfolding run_plan.simps
    by (intro conjI log_inv_bind enable_first_bind log_inv_run_op enable_first_run_op
        Cons.IH [THEN conjunct1] Cons.IH [THEN conjunct2])
qed

subsection \<open>What a plan leaves on the chip\<close>

text \<open>
  A program step ANDs its data into the page, an erase step sets the sector to \<open>0xFF\<close>;
  both only with the latch that the write-enable before them has set.
\<close>

lemma te_write_enable_Inr:
  "te_write_enable sp = (Inr u, sp1) \<Longrightarrow>
     wel sp1 \<and> cells sp1 = cells sp \<and> geometry sp1 = geometry sp"
  by (auto simp: te_write_enable_def issue_def split: if_splits)

lemma program_step_cells:
  assumes "program_step off d sp = (Inr u, sp1)"
  shows "cells sp1 = programmed_cells off d (cells sp)"
proof (cases "te_write_enable sp")
  case (Pair r sp0)
  with assms obtain v where r: "r = Inr v"
    by (cases r) (auto simp: program_step_def)
  from te_write_enable_Inr [OF Pair [unfolded r]] assms Pair r show ?thesis
    by (auto simp: program_step_def te_program_page_def issue_def split: if_splits)
qed

lemma erase_step_cells:
  assumes "erase_step s sp = (Inr u, sp1)"
  shows "cells sp1 = erased_cells s (unat (sector_size (geometry sp))) (cells sp)"
proof (cases "te_write_enable sp")
  case (Pair r sp0)
  with assms obtain v where r: "r = Inr v"
    by (cases r) (auto simp: erase_step_def)
  from te_write_enable_Inr [OF Pair [unfolded r]] assms Pair r show ?thesis
    by (auto simp: erase_step_def te_erase_sector_def issue_def split: if_splits)
qed

lemma page_slice_length: "p + n \<le> length img \<Longrightarrow> length (page_slice img p n) = n"
  by (simp add: page_slice_def)

lemma page_slice_nth: "p + n \<le> length img \<Longrightarrow> i < n \<Longrightarrow> page_slice img p n ! i = img ! (p + i)"
  by (simp add: page_slice_def)

lemma mk_op_sel:
  "page_offset (mk_op desired n e p) = p"
  "needs_erase (mk_op desired n e p) = e"
  "payload (mk_op desired n e p) = page_slice desired p n"
  by (simp_all add: mk_op_def)

lemma run_plan_program_only:
  assumes "run_plan (map (mk_op desired n False) ps) sp = (Inr u, sp')"
    and "\<forall>p\<in>set ps. p + n \<le> length desired"
  shows "cells sp' a =
     (if \<exists>p\<in>set ps. p \<le> a \<and> a < p + n then cells sp a AND desired ! a else cells sp a)"
  using assms
proof (induction ps arbitrary: sp)
  case Nil
  then show ?case by simp
next
  case (Cons p ps)
  from Cons.prems(1) obtain v sp1 where
    step: "program_step p (page_slice desired p n) sp = (Inr v, sp1)"
    and rest: "run_plan (map (mk_op desired n False) ps) sp1 = (Inr u, sp')"
    by (auto simp: run_op_def mk_op_sel split: prod.splits sum.splits)
  have len: "p + n \<le> length desired"
    using Cons.prems(2) by simp
  have c1: "cells sp1 a = (if p \<le> a \<and> a < p + n then cells sp a AND desired ! a else cells sp a)"
    using program_step_cells [OF step] len
    by (auto simp: programmed_cells_def page_slice_length page_slice_nth)
  have "cells sp' a =
     (if \<exists>q\<in>set ps. q \<le> a \<and> a < q + n then cells sp1 a AND desired ! a else cells sp1 a)"
    using Cons.IH [OF rest] Cons.prems(2) by simp
  with c1 show ?case
    by (auto simp: and.assoc)
qed

text \<open>The pages of a sector lie inside it, cover it, and start with the sector's first page.\<close>

lemma sector_pages_within:
  assumes "geometry_ok g" and "p \<in> set (sector_pages g s)"
  shows "s \<le> p \<and> p + unat (page_size g) \<le> s + unat (sector_size g)"
proof -
  from assms(2) obtain k where k: "k < unat (sector_size g) div unat (page_size g)"
    and p: "p = s + k * unat (page_size g)"
    by (auto simp: sector_pages_def)
  from k have "Suc k * unat (page_size g) \<le>
      (unat (sector_size g) div unat (page_size g)) * unat (page_size g)"
    by (intro mult_le_mono1) simp
  also have "\<dots> \<le> unat (sector_size g)"
    by simp
  finally show ?thesis using p by simp
qed

lemma sector_pages_cover:
  assumes "geometry_ok g" and "s \<le> a" and "a < s + unat (sector_size g)"
  shows "\<exists>p\<in>set (sector_pages g s). p \<le> a \<and> a < p + unat (page_size g)"
proof -
  let ?n = "unat (page_size g)" and ?S = "unat (sector_size g)"
  let ?k = "(a - s) div ?n"
  have n: "0 < ?n" and S: "(?S div ?n) * ?n = ?S"
    using assms(1) by (auto simp: geometry_ok_def)
  have "a - s < (?S div ?n) * ?n"
    using assms(2,3) S by simp
  then have k: "?k < ?S div ?n"
    using n by (simp add: div_less_iff_less_mult)
  have lo: "?k * ?n \<le> a - s"
    by simp
  have hi: "a - s < ?k * ?n + ?n"
    using n dividend_less_div_times [of ?n "a - s"] by (simp add: mult.commute)
  have "s + ?k * ?n \<in> set (sector_pages g s)"
    using k by (auto simp: sector_pages_def)
  moreover have "s + ?k * ?n \<le> a \<and> a < s + ?k * ?n + ?n"
    using lo hi assms(2) by linarith
  ultimately show ?thesis by blast
qed

lemma sector_pages_first:
  assumes "geometry_ok g"
  shows "\<exists>rest. sector_pages g s = s # rest \<and> s \<notin> set rest"
proof -
  let ?n = "unat (page_size g)" and ?S = "unat (sector_size g)"
  have n: "0 < ?n" and S: "0 < ?S" "?S mod ?n = 0"
    using assms by (auto simp: geometry_ok_def)
  then have "0 < ?S div ?n"
    by (metis div_greater_zero_iff mod_less neq0_conv not_le)
  then have "[0 ..< ?S div ?n] = 0 # [1 ..< ?S div ?n]"
    by (simp add: upt_conv_Cons)
  then have "sector_pages g s = s # map (\<lambda>k. s + k * ?n) [1 ..< ?S div ?n]"
    by (simp add: sector_pages_def)
  moreover have "s \<notin> set (map (\<lambda>k. s + k * ?n) [1 ..< ?S div ?n])"
    using n by auto
  ultimately show ?thesis by blast
qed

lemma sector_base_aligned: "s mod unat (sector_size g) = 0 \<Longrightarrow> sector_base g s = s"
  by (auto simp: sector_base_def)

lemma run_plan_erase_sector:
  assumes ok: "geometry_ok g" and g: "geometry sp = g" and al: "s mod unat (sector_size g) = 0"
    and run: "run_plan (map (\<lambda>p. mk_op desired n (p = s) p) (sector_pages g s)) sp = (Inr u, sp')"
  shows "\<exists>v sp1. erase_step s sp = (Inr v, sp1) \<and>
           run_plan (map (mk_op desired n False) (sector_pages g s)) sp1 = (Inr u, sp')"
proof -
  from sector_pages_first [OF ok] obtain rest where
    pages: "sector_pages g s = s # rest" and fresh: "s \<notin> set rest"
    by blast
  have "(x = s) = False" if "x \<in> set rest" for x
    using fresh that by auto
  then have rest: "map (\<lambda>p. mk_op desired n (p = s) p) rest = map (mk_op desired n False) rest"
    by (simp cong: map_cong)
  from run [unfolded pages] obtain v sp1 v2 sp2 where
    e: "erase_step s sp = (Inr v, sp1)"
    and p: "program_step s (page_slice desired s n) sp1 = (Inr v2, sp2)"
    and r: "run_plan (map (mk_op desired n False) rest) sp2 = (Inr u, sp')"
    by (auto simp: rest run_op_def mk_op_sel g sector_base_aligned [OF al]
        split: prod.splits sum.splits)
  from p r have "run_plan (map (mk_op desired n False) (s # rest)) sp1 = (Inr u, sp')"
    by (simp add: run_op_def mk_op_sel)
  with e show ?thesis
    unfolding pages by blast
qed

lemma page_slice_eq_iff:
  assumes "p + n \<le> length cur" and "p + n \<le> length des"
  shows "(page_slice cur p n = page_slice des p n) = (\<forall>i<n. cur ! (p + i) = des ! (p + i))"
  using assms by (simp add: list_eq_iff_nth_eq page_slice_length page_slice_nth)

lemma programmable_page_iff:
  assumes "p + n \<le> length cur" and "p + n \<le> length des"
  shows "programmable (page_slice cur p n) (page_slice des p n) =
     (\<forall>i<n. cur ! (p + i) AND des ! (p + i) = des ! (p + i))"
  using assms
  by (simp add: programmable_def list_all_length page_slice_length page_slice_nth)

lemma erased_byte_and: "(0xFF :: byte) AND x = x"
proof -
  have "(0xFF :: byte) = - 1" by simp
  then show ?thesis by (simp only: and.left_neutral)
qed

text \<open>
  The plan of one sector, run to its end on a chip that holds \<open>current\<close> there, leaves
  \<open>desired\<close> in the sector and touches nothing outside it.
\<close>

lemma run_plan_sector:
  assumes ok: "geometry_ok g" and g: "geometry sp = g"
    and al: "s mod unat (sector_size g) = 0"
    and len: "s + unat (sector_size g) \<le> length desired"
    and eqlen: "length current = length desired"
    and cur: "\<And>b. s \<le> b \<Longrightarrow> b < s + unat (sector_size g) \<Longrightarrow> cells sp b = current ! b"
    and run: "run_plan (plan_sector current desired g False s) sp = (Inr u, sp')"
  shows "cells sp' a =
     (if s \<le> a \<and> a < s + unat (sector_size g) then desired ! a else cells sp a)"
proof -
  let ?n = "unat (page_size g)" and ?S = "unat (sector_size g)"
  let ?pages = "sector_pages g s"
  let ?changed = "filter (\<lambda>p. page_slice current p ?n \<noteq> page_slice desired p ?n) ?pages"
  let ?erase = "list_ex (\<lambda>p. \<not> programmable (page_slice current p ?n) (page_slice desired p ?n))
                  ?changed"
  have within: "s \<le> p \<and> p + ?n \<le> s + ?S" if "p \<in> set ?pages" for p
    using sector_pages_within [OF ok that] .
  have fits: "\<forall>p\<in>set ?pages. p + ?n \<le> length desired"
    using within len by fastforce
  have outside: "\<not> (\<exists>p\<in>set ?pages. p \<le> a \<and> a < p + ?n)" if "\<not> (s \<le> a \<and> a < s + ?S)"
    using within that by fastforce
  show ?thesis
  proof (cases ?erase)
    case True
    then have "plan_sector current desired g False s =
        map (\<lambda>p. mk_op desired ?n (p = s) p) ?pages"
      by (simp add: plan_sector_def Let_def)
    with run have "run_plan (map (\<lambda>p. mk_op desired ?n (p = s) p) ?pages) sp = (Inr u, sp')"
      by simp
    from run_plan_erase_sector [OF ok g al this] obtain v sp1 where
      e: "erase_step s sp = (Inr v, sp1)"
      and r: "run_plan (map (mk_op desired ?n False) ?pages) sp1 = (Inr u, sp')"
      by blast
    have c1: "cells sp1 = erased_cells s ?S (cells sp)"
      using erase_step_cells [OF e] g by simp
    show ?thesis
    proof (cases "s \<le> a \<and> a < s + ?S")
      case True
      then have "\<exists>p\<in>set ?pages. p \<le> a \<and> a < p + ?n"
        using sector_pages_cover [OF ok] by simp
      then show ?thesis
        using run_plan_program_only [OF r fits, of a] True c1
        by (simp add: erased_cells_def erased_byte_and)
    next
      case False
      then show ?thesis
        using run_plan_program_only [OF r fits, of a] outside [OF False] c1
        by (auto simp: erased_cells_def)
    qed
  next
    case False
    then have pl: "plan_sector current desired g False s = map (mk_op desired ?n False) ?changed"
      by (simp add: plan_sector_def Let_def)
    have fits': "\<forall>p\<in>set ?changed. p + ?n \<le> length desired"
      using fits by simp
    note result = run_plan_program_only [OF run [unfolded pl] fits', of a]
    show ?thesis
    proof (cases "s \<le> a \<and> a < s + ?S")
      case inside: True
      from sector_pages_cover [OF ok] inside obtain p where
        p: "p \<in> set ?pages" "p \<le> a" "a < p + ?n"
        by blast
      have pfit: "p + ?n \<le> length current" "p + ?n \<le> length desired"
        using fits p(1) eqlen by auto
      have ca: "cells sp a = current ! a"
        using cur inside by simp
      show ?thesis
      proof (cases "\<exists>q\<in>set ?changed. q \<le> a \<and> a < q + ?n")
        case True
        then obtain q where q: "q \<in> set ?changed" "q \<le> a" "a < q + ?n"
          by blast
        then have qfit: "q + ?n \<le> length current" "q + ?n \<le> length desired"
          using fits eqlen by auto
        from False q(1) have "programmable (page_slice current q ?n) (page_slice desired q ?n)"
          by (auto simp: list_ex_iff)
        then have "\<forall>i<?n. current ! (q + i) AND desired ! (q + i) = desired ! (q + i)"
          unfolding programmable_page_iff [OF qfit] .
        moreover have "a - q < ?n"
          using q(2,3) by linarith
        ultimately have "current ! (q + (a - q)) AND desired ! (q + (a - q)) = desired ! (q + (a - q))"
          by blast
        then have "current ! a AND desired ! a = desired ! a"
          using q(2) by simp
        moreover have "cells sp' a = cells sp a AND desired ! a"
          using result True by (simp only: if_True)
        ultimately show ?thesis
          using inside ca by simp
      next
        case unchanged: False
        then have "p \<notin> set ?changed"
          using p by blast
        then have "page_slice current p ?n = page_slice desired p ?n"
          using p(1) by simp
        then have "\<forall>i<?n. current ! (p + i) = desired ! (p + i)"
          unfolding page_slice_eq_iff [OF pfit] .
        moreover have "a - p < ?n"
          using p(2,3) by linarith
        ultimately have "current ! (p + (a - p)) = desired ! (p + (a - p))"
          by blast
        then have "current ! a = desired ! a"
          using p(2) by simp
        moreover have "cells sp' a = cells sp a"
          using result unchanged by (simp only: if_False)
        ultimately show ?thesis
          using inside ca by simp
      qed
    next
      case False
      have "\<not> (\<exists>q\<in>set ?changed. q \<le> a \<and> a < q + ?n)"
        using outside [OF False] by auto
      with result have "cells sp' a = cells sp a"
        by (simp only: if_False)
      then show ?thesis
        using False by auto
    qed
  qed
qed

text \<open>The plan of the image, sector after sector.\<close>

lemma run_plan_append:
  "run_plan (xs @ ys) sp =
     (case run_plan xs sp of (Inl e, sp1) \<Rightarrow> (Inl e, sp1) | (Inr u, sp1) \<Rightarrow> run_plan ys sp1)"
  by (induction xs arbitrary: sp) (auto split: prod.splits sum.splits)

lemma run_plan_geometry: "geometry (snd (run_plan ps sp)) = geometry sp"
  using run_plan_inv [of sp ps] by (simp add: log_inv_def)

lemma run_plan_sectors:
  assumes ok: "geometry_ok g" and g: "geometry sp = g"
    and eqlen: "length current = length desired"
    and cur: "\<And>b. b < length current \<Longrightarrow> cells sp b = current ! b"
  shows "k * unat (sector_size g) \<le> length desired \<Longrightarrow>
     run_plan (concat (map (\<lambda>j. plan_sector current desired g False (j * unat (sector_size g)))
                         [0 ..< k])) sp = (Inr u, sp') \<Longrightarrow>
     cells sp' a = (if a < k * unat (sector_size g) then desired ! a else cells sp a)"
proof (induction k arbitrary: u sp' a)
  case 0
  then show ?case by simp
next
  case (Suc k)
  let ?S = "unat (sector_size g)"
  let ?f = "\<lambda>j. plan_sector current desired g False (j * ?S)"
  from Suc.prems(2) obtain v sp1 where
    first: "run_plan (concat (map ?f [0 ..< k])) sp = (Inr v, sp1)"
    and last: "run_plan (?f k) sp1 = (Inr u, sp')"
    by (auto simp: run_plan_append split: prod.splits sum.splits)
  have k: "k * ?S \<le> length desired" and fit: "k * ?S + ?S \<le> length desired"
    using Suc.prems(1) by simp_all
  note before = Suc.IH [OF k first]
  have g1: "geometry sp1 = g"
    using run_plan_geometry [of "concat (map ?f [0 ..< k])" sp] first g by simp
  have cur1: "cells sp1 b = current ! b" if "k * ?S \<le> b" "b < k * ?S + ?S" for b
    using before [of b] that cur [of b] fit eqlen by simp
  have "cells sp' a = (if k * ?S \<le> a \<and> a < k * ?S + ?S then desired ! a else cells sp1 a)"
    by (rule run_plan_sector [OF ok g1 _ fit eqlen cur1 last]) simp_all
  then show ?case
    using before [of a] by auto
qed

lemma te_read_Inr:
  "te_read off n sp = (Inr bs, sp1) \<Longrightarrow>
     bs = map (cells sp) [off ..< off + n] \<and> cells sp1 = cells sp \<and> geometry sp1 = geometry sp"
  by (auto simp: te_read_def issue_def split: if_splits)

lemma desired_image_length:
  "off + length data \<le> length current \<Longrightarrow> length (desired_image current off data) = length current"
  by (simp add: desired_image_def)

lemma desired_image_nth:
  assumes "off + length data \<le> length current" and "a < length current"
  shows "desired_image current off data ! a =
     (if off \<le> a \<and> a < off + length data then data ! (a - off) else current ! a)"
  using assms by (auto simp: desired_image_def nth_append min_def)

lemma program_buffer_cells:
  assumes ok: "geometry_ok (geometry sp)"
    and range: "unat offset + unat len \<le> unat (total_size (geometry sp))"
    and buf: "unat len \<le> length buf"
    and run: "spiflash_program_buffer sp offset buf len = (Inr u, sp')"
  shows "cells sp' a =
     (if unat offset \<le> a \<and> a < unat offset + unat len then buf ! (a - unat offset)
      else cells sp a)"
proof -
  let ?g = "geometry sp"
  let ?T = "unat (total_size ?g)" and ?S = "unat (sector_size ?g)"
  let ?data = "take (unat len) buf"
  from run obtain current sp1 where
    rd: "te_read 0 ?T sp = (Inr current, sp1)"
    and pl: "run_plan (plan current (desired_image current (unat offset) ?data) ?g False) sp1
               = (Inr u, sp')"
    by (auto simp: spiflash_program_buffer_def split: prod.splits sum.splits)
  let ?desired = "desired_image current (unat offset) ?data"
  from te_read_Inr [OF rd] have current: "current = map (cells sp) [0 ..< ?T]"
    and c1: "cells sp1 = cells sp" and g1: "geometry sp1 = ?g"
    by simp_all
  have dlen: "length ?data = unat len"
    using buf by simp
  have clen: "length current = ?T"
    using current by simp
  have fits: "unat offset + length ?data \<le> length current"
    using range dlen clen by simp
  have len: "length ?desired = ?T"
    using desired_image_length [OF fits] clen by simp
  have T: "(?T div ?S) * ?S = ?T"
    using ok by (auto simp: geometry_ok_def)
  have cur: "cells sp1 b = current ! b" if "b < length current" for b
    using that c1 current by simp
  have all: "cells sp' a = (if a < (?T div ?S) * ?S then ?desired ! a else cells sp1 a)"
    by (rule run_plan_sectors [OF ok g1 _ cur])
      (use pl len clen T in \<open>simp_all add: plan_def\<close>)
  show ?thesis
  proof (cases "a < ?T")
    case True
    have "take (unat len) buf ! (a - unat offset) = buf ! (a - unat offset)"
      if "unat offset \<le> a" "a < unat offset + unat len"
      using that by (intro nth_take) linarith
    moreover have "current ! a = cells sp a"
      using True current by simp
    ultimately show ?thesis
      using all T True desired_image_nth [OF fits, of a] clen dlen by auto
  next
    case False
    then show ?thesis
      using all T c1 range by simp
  qed
qed

subsection \<open>The operations a plan issues\<close>

lemma prim_log:
  "hw_log (snd (te_write_enable sp)) = hw_log sp @ [OpWriteEnable]"
  "hw_log (snd (te_erase_sector s sp)) = hw_log sp @ [OpEraseSector s]"
  "hw_log (snd (te_program_page off d sp)) = hw_log sp @ [OpProgramPage off d]"
  "hw_log (snd (te_read off n sp)) = hw_log sp @ [OpRead off n]"
  by (simp_all add: te_write_enable_def te_erase_sector_def te_program_page_def te_read_def
      issue_def)

lemma prim_geometry:
  "geometry (snd (te_write_enable sp)) = geometry sp"
  "geometry (snd (te_erase_sector s sp)) = geometry sp"
  "geometry (snd (te_program_page off d sp)) = geometry sp"
  by (simp_all add: te_write_enable_def te_erase_sector_def te_program_page_def issue_def)

lemma erase_step_log:
  assumes "erase_step s sp = (Inr u, sp1)"
  shows "hw_log sp1 = hw_log sp @ [OpWriteEnable, OpEraseSector s] \<and> geometry sp1 = geometry sp"
proof (cases "te_write_enable sp")
  case (Pair r sp0)
  with assms obtain v where r: "r = Inr v"
    by (cases r) (auto simp: erase_step_def)
  from assms Pair r have "sp1 = snd (te_erase_sector s sp0)" "sp0 = snd (te_write_enable sp)"
    by (auto simp: erase_step_def)
  then show ?thesis
    by (simp add: prim_log prim_geometry)
qed

lemma program_step_log:
  assumes "program_step off d sp = (Inr u, sp1)"
  shows "hw_log sp1 = hw_log sp @ [OpWriteEnable, OpProgramPage off d] \<and>
         geometry sp1 = geometry sp"
proof (cases "te_write_enable sp")
  case (Pair r sp0)
  with assms obtain v where r: "r = Inr v"
    by (cases r) (auto simp: program_step_def)
  from assms Pair r have "sp1 = snd (te_program_page off d sp0)" "sp0 = snd (te_write_enable sp)"
    by (auto simp: program_step_def)
  then show ?thesis
    by (simp add: prim_log prim_geometry)
qed

lemma run_op_log:
  assumes "run_op p sp = (Inr u, sp1)"
  shows "hw_log sp1 = hw_log sp @ op_cmds (geometry sp) p \<and> geometry sp1 = geometry sp"
proof (cases "needs_erase p")
  case True
  with assms obtain v sp0 where
    e: "erase_step (sector_base (geometry sp) (page_offset p)) sp = (Inr v, sp0)"
    and q: "program_step (page_offset p) (payload p) sp0 = (Inr u, sp1)"
    by (auto simp: run_op_def split: prod.splits sum.splits)
  from erase_step_log [OF e] program_step_log [OF q] True show ?thesis
    by (simp add: op_cmds_def)
next
  case False
  with assms have "program_step (page_offset p) (payload p) sp = (Inr u, sp1)"
    by (simp add: run_op_def)
  from program_step_log [OF this] False show ?thesis
    by (simp add: op_cmds_def)
qed

lemma run_plan_log:
  "run_plan ps sp = (Inr u, sp') \<Longrightarrow>
     hw_log sp' = hw_log sp @ concat (map (op_cmds (geometry sp)) ps)"
proof (induction ps arbitrary: sp)
  case Nil
  then show ?case by simp
next
  case (Cons p ps)
  from Cons.prems obtain v sp1 where
    one: "run_op p sp = (Inr v, sp1)" and rest: "run_plan ps sp1 = (Inr u, sp')"
    by (auto split: prod.splits sum.splits)
  from run_op_log [OF one] Cons.IH [OF rest] show ?case
    by simp
qed

lemma plan_unchanged: "plan current current g False = []"
  by (simp add: plan_def plan_sector_def)

lemma desired_image_same:
  assumes "off + length data \<le> length current"
    and "\<And>i. i < length data \<Longrightarrow> current ! (off + i) = data ! i"
  shows "desired_image current off data = current"
proof (rule nth_equalityI)
  show "length (desired_image current off data) = length current"
    using assms(1) by (rule desired_image_length)
next
  fix a
  assume "a < length (desired_image current off data)"
  then have a: "a < length current"
    using desired_image_length [OF assms(1)] by simp
  show "desired_image current off data ! a = current ! a"
    using desired_image_nth [OF assms(1) a] assms(2) [of "a - off"] by auto
qed

subsection \<open>\<^verbatim>\<open>write_to_spi\<close> and the handle\<close>

lemma exit_codes: "EXIT_SUCCESS \<noteq> EXIT_FAILURE"
  by (simp add: EXIT_SUCCESS_def EXIT_FAILURE_def)

lemma spi_print [simp]:
  "spi (eprint m w) = spi w" "spi (print m w) = spi w" "spi (vprint m w) = spi w"
  by (simp_all add: eprint_def print_def vprint_def)

lemma write_to_spi_handle:
  "(fst (write_to_spi filename offset length0 w) = EXIT_FAILURE \<and>
    spi (snd (write_to_spi filename offset length0 w)) = spi w) \<or>
   (\<exists>input.
      open_input filename w = Some input \<and>
      spi (snd (write_to_spi filename offset length0 w)) =
        snd (enable_and_program (spi w) offset (fread_buf (spiflash_size (spi w)) input)
               (word_of_nat (length (fread_bytes (spiflash_size (spi w)) input)))) \<and>
      (fst (write_to_spi filename offset length0 w) = EXIT_FAILURE) =
        isl (fst (enable_and_program (spi w) offset (fread_buf (spiflash_size (spi w)) input)
               (word_of_nat (length (fread_bytes (spiflash_size (spi w)) input))))))"
proof (cases "open_input filename w")
  case None
  then show ?thesis by (simp add: write_to_spi_def)
next
  case (Some input)
  let ?fs = "spiflash_size (spi w)"
  let ?read_len = "word_of_nat (length (fread_bytes ?fs input)) :: u32"
  let ?len = "if length0 = 0 then ?read_len else length0"
  show ?thesis
  proof (cases "(length0 \<noteq> 0 \<and> ?read_len \<noteq> length0) \<or> offset + ?len > ?fs")
    case True
    then show ?thesis
      using Some by (auto simp: write_to_spi_def Let_def)
  next
    case False
    then have len: "length0 = 0 \<or> length0 = ?read_len"
      by auto
    from False len have "spi (snd (write_to_spi filename offset length0 w)) =
        snd (enable_and_program (spi w) offset (fread_buf ?fs input) ?read_len) \<and>
      (fst (write_to_spi filename offset length0 w) = EXIT_FAILURE) =
        isl (fst (enable_and_program (spi w) offset (fread_buf ?fs input) ?read_len))"
      using Some exit_codes
      by (auto simp: write_to_spi_def Let_def enable_and_program_def
          split: prod.splits sum.splits)
    with Some show ?thesis by blast
  qed
qed

lemma log_inv_program_buffer:
  "log_inv sp (spiflash_program_buffer sp offset buf len) \<and>
   enable_first (new_ops sp (snd (spiflash_program_buffer sp offset buf len)))"
  unfolding spiflash_program_buffer_def
  by (intro conjI log_inv_bind enable_first_bind log_inv_prim
      run_plan_inv [THEN conjunct1] run_plan_inv)
    (simp_all add: new_ops_prim enable_first_def)

lemma enable_and_program_inv:
  "log_inv sp (enable_and_program sp offset buf len) \<and>
   enable_first (new_ops sp (snd (enable_and_program sp offset buf len)))"
  unfolding enable_and_program_def spiflash_write_enable_def
  by (intro conjI log_inv_bind enable_first_bind log_inv_prim
      log_inv_program_buffer [THEN conjunct1] log_inv_program_buffer)
    (simp_all add: new_ops_prim enable_first_def)

lemma fread_bytes_length: "length (fread_bytes fs input) \<le> unat (fs + 1)"
  by (simp add: fread_bytes_def)

lemma fread_bytes_unat:
  "unat (word_of_nat (length (fread_bytes fs input)) :: u32) = length (fread_bytes fs input)"
proof -
  have "length (fread_bytes fs input) < 2 ^ 32"
    using fread_bytes_length [of fs input] unsigned_less [of "fs + 1", where 'a = nat]
    by simp
  then show ?thesis
    by (simp add: unat_of_nat)
qed

lemma fread_buf_take: "take (length (fread_bytes fs input)) (fread_buf fs input) = fread_bytes fs input"
  by (simp add: fread_buf_def)

lemma write_to_spi_success:
  assumes "fst (write_to_spi filename offset length0 w) = EXIT_SUCCESS"
  shows "\<exists>input u1 sp1 u2.
     open_input filename w = Some input \<and>
     te_write_enable (spi w) = (Inr u1, sp1) \<and>
     spiflash_program_buffer sp1 offset (fread_buf (spiflash_size (spi w)) input)
       (word_of_nat (length (fread_bytes (spiflash_size (spi w)) input))) =
       (Inr u2, spi (snd (write_to_spi filename offset length0 w)))"
proof (cases "open_input filename w")
  case None
  with assms exit_codes show ?thesis by (simp add: write_to_spi_def)
next
  case (Some input)
  let ?fs = "spiflash_size (spi w)"
  let ?read_len = "word_of_nat (length (fread_bytes ?fs input)) :: u32"
  let ?len = "if length0 = 0 then ?read_len else length0"
  have go: "\<not> ((length0 \<noteq> 0 \<and> ?read_len \<noteq> length0) \<or> offset + ?len > ?fs)"
    using assms Some exit_codes by (auto simp: write_to_spi_def Let_def split: if_splits)
  then have len: "length0 = 0 \<or> length0 = ?read_len"
    by auto
  from assms Some go exit_codes len show ?thesis
    by (auto simp: write_to_spi_def Let_def spiflash_write_enable_def
        split: prod.splits sum.splits)
qed

lemma plan_sector_erase:
  assumes ok: "geometry_ok g"
    and len: "s + unat (sector_size g) \<le> length desired"
    and eqlen: "length current = length desired"
    and b: "s \<le> b" "b < s + unat (sector_size g)"
    and need: "current ! b AND desired ! b \<noteq> desired ! b"
  shows "plan_sector current desired g False s =
     map (\<lambda>p. mk_op desired (unat (page_size g)) (p = s) p) (sector_pages g s)"
proof -
  let ?n = "unat (page_size g)"
  from sector_pages_cover [OF ok b] obtain q where
    q: "q \<in> set (sector_pages g s)" "q \<le> b" "b < q + ?n"
    by blast
  have fit: "q + ?n \<le> length current" "q + ?n \<le> length desired"
    using sector_pages_within [OF ok q(1)] len eqlen by simp_all
  have i: "b - q < ?n" "q + (b - q) = b"
    using q(2,3) by simp_all
  have "\<not> programmable (page_slice current q ?n) (page_slice desired q ?n)"
    unfolding programmable_page_iff [OF fit] using i need by metis
  moreover have "page_slice current q ?n \<noteq> page_slice desired q ?n"
    unfolding page_slice_eq_iff [OF fit] using i need by (metis and.idem)
  ultimately show ?thesis
    using q(1) by (auto simp: plan_sector_def Let_def list_ex_iff)
qed

lemma plan_contains:
  assumes "j < length desired div unat (sector_size g)"
  shows "set (plan_sector current desired g False (j * unat (sector_size g)))
           \<subseteq> set (plan current desired g False)"
  using assms by (auto simp: plan_def)

lemma op_cmds_program: "OpProgramPage (page_offset p) (payload p) \<in> set (op_cmds g p)"
  by (simp add: op_cmds_def)

lemma op_cmds_erase:
  "needs_erase p \<Longrightarrow> OpEraseSector (sector_base g (page_offset p)) \<in> set (op_cmds g p)"
  by (simp add: op_cmds_def)

lemma program_buffer_log:
  assumes "spiflash_program_buffer sp offset buf len = (Inr u, sp')"
  shows "hw_log sp' = hw_log sp @
     OpRead 0 (unat (total_size (geometry sp))) #
     concat (map (op_cmds (geometry sp))
       (plan (map (cells sp) [0 ..< unat (total_size (geometry sp))])
          (desired_image (map (cells sp) [0 ..< unat (total_size (geometry sp))])
             (unat offset) (take (unat len) buf))
          (geometry sp) False))"
proof -
  let ?T = "unat (total_size (geometry sp))"
  from assms obtain current sp1 where
    rd: "te_read 0 ?T sp = (Inr current, sp1)"
    and pl: "run_plan (plan current (desired_image current (unat offset) (take (unat len) buf))
               (geometry sp) False) sp1 = (Inr u, sp')"
    by (auto simp: spiflash_program_buffer_def split: prod.splits sum.splits)
  from te_read_Inr [OF rd] have current: "current = map (cells sp) [0 ..< ?T]"
    and g1: "geometry sp1 = geometry sp"
    by simp_all
  have "hw_log sp1 = hw_log sp @ [OpRead 0 ?T]"
    using prim_log(4) [of 0 ?T sp] rd by simp
  with run_plan_log [OF pl] g1 current show ?thesis
    by simp
qed

lemma write_success_state:
  assumes ok: "geometry_ok (geometry (spi w))"
    and inp: "open_input filename w = Some input"
    and range: "unat offset + length (fread_bytes (spiflash_size (spi w)) input)
                  \<le> unat (spiflash_size (spi w))"
    and fin: "fst (write_to_spi filename offset length0 w) = EXIT_SUCCESS"
  shows "cells (spi (snd (write_to_spi filename offset length0 w))) a =
           desired_cell (cells (spi w)) (unat offset)
             (fread_bytes (spiflash_size (spi w)) input) a"
    and "new_ops (spi w) (spi (snd (write_to_spi filename offset length0 w))) =
           OpWriteEnable # OpRead 0 (unat (total_size (geometry (spi w)))) #
           concat (map (op_cmds (geometry (spi w)))
             (plan (map (cells (spi w)) [0 ..< unat (total_size (geometry (spi w)))])
                (desired_image (map (cells (spi w)) [0 ..< unat (total_size (geometry (spi w)))])
                   (unat offset) (fread_bytes (spiflash_size (spi w)) input))
                (geometry (spi w)) False))"
proof -
  let ?fs = "spiflash_size (spi w)"
  let ?data = "fread_bytes ?fs input"
  let ?len = "word_of_nat (length ?data) :: u32"
  let ?sp' = "spi (snd (write_to_spi filename offset length0 w))"
  from write_to_spi_success [OF fin] inp obtain u1 sp1 u2 where
    we: "te_write_enable (spi w) = (Inr u1, sp1)"
    and pb: "spiflash_program_buffer sp1 offset (fread_buf ?fs input) ?len = (Inr u2, ?sp')"
    by auto
  from te_write_enable_Inr [OF we] have c1: "cells sp1 = cells (spi w)"
    and g1: "geometry sp1 = geometry (spi w)"
    by simp_all
  have l1: "hw_log sp1 = hw_log (spi w) @ [OpWriteEnable]"
    using prim_log(1) [of "spi w"] we by simp
  have ulen: "unat ?len = length ?data"
    by (rule fread_bytes_unat)
  have tk: "take (unat ?len) (fread_buf ?fs input) = ?data"
    unfolding ulen by (rule fread_buf_take)
  have blen: "unat ?len \<le> length (fread_buf ?fs input)"
    unfolding ulen by (simp add: fread_buf_def)
  have r1: "unat offset + unat ?len \<le> unat (total_size (geometry sp1))"
    using range ulen g1 by (simp add: spiflash_size_def)
  have nth: "fread_buf ?fs input ! i = ?data ! i" if "i < length ?data" for i
    using that by (simp add: fread_buf_def nth_append)
  show "cells ?sp' a = desired_cell (cells (spi w)) (unat offset) ?data a"
    using program_buffer_cells [OF _ r1 blen pb, of a] ok g1 c1 ulen nth [of "a - unat offset"]
    by (auto simp: desired_cell_def)
  show "new_ops (spi w) ?sp' =
           OpWriteEnable # OpRead 0 (unat (total_size (geometry (spi w)))) #
           concat (map (op_cmds (geometry (spi w)))
             (plan (map (cells (spi w)) [0 ..< unat (total_size (geometry (spi w)))])
                (desired_image (map (cells (spi w)) [0 ..< unat (total_size (geometry (spi w)))])
                   (unat offset) ?data)
                (geometry (spi w)) False))"
    using program_buffer_log [OF pb] l1 g1 c1 tk by (simp add: new_ops_def)
qed

subsection \<open>Writing what the chip already holds\<close>

lemma write_to_spi_geometry:
  "geometry (spi (snd (write_to_spi filename offset length0 w))) = geometry (spi w)"
  using write_to_spi_handle [of filename offset length0 w]
    enable_and_program_inv [of "spi w" offset]
  by (auto simp: log_inv_def)

lemma program_buffer_idle:
  assumes range: "unat offset + unat len \<le> unat (total_size (geometry sp))"
    and buf: "unat len \<le> length buf"
    and same: "\<And>i. i < unat len \<Longrightarrow> cells sp (unat offset + i) = buf ! i"
  shows "hw_log (snd (spiflash_program_buffer sp offset buf len)) =
           hw_log sp @ [OpRead 0 (unat (total_size (geometry sp)))]"
proof (cases "next_fails sp")
  case True
  then show ?thesis
    by (simp add: spiflash_program_buffer_def te_read_def issue_def)
next
  case False
  let ?T = "unat (total_size (geometry sp))"
  let ?current = "map (cells sp) [0 ..< ?T]"
  have "desired_image ?current (unat offset) (take (unat len) buf) = ?current"
    using range buf same by (intro desired_image_same) simp_all
  with False show ?thesis
    by (simp add: spiflash_program_buffer_def te_read_def issue_def plan_unchanged)
qed

lemma enable_and_program_idle:
  assumes range: "unat offset + unat len \<le> unat (total_size (geometry sp))"
    and buf: "unat len \<le> length buf"
    and same: "\<And>i. i < unat len \<Longrightarrow> cells sp (unat offset + i) = buf ! i"
  shows "new_ops sp (snd (enable_and_program sp offset buf len)) = [OpWriteEnable] \<or>
         new_ops sp (snd (enable_and_program sp offset buf len)) =
           [OpWriteEnable, OpRead 0 (unat (total_size (geometry sp)))]"
proof (cases "next_fails sp")
  case True
  then show ?thesis
    by (simp add: enable_and_program_def spiflash_write_enable_def te_write_enable_def
        issue_def new_ops_def)
next
  case False
  let ?sp1 = "issue OpWriteEnable (sp\<lparr>wel := True\<rparr>)"
  have "hw_log (snd (spiflash_program_buffer ?sp1 offset buf len)) =
      hw_log ?sp1 @ [OpRead 0 (unat (total_size (geometry ?sp1)))]"
    using range buf same by (intro program_buffer_idle) (simp_all add: issue_def)
  with False show ?thesis
    by (simp add: enable_and_program_def spiflash_write_enable_def te_write_enable_def
        issue_def new_ops_def)
qed

subsection \<open>The pages a write leaves alone\<close>

text \<open>
  Whatever a run issues, also one that stops at a failure, is among the operations of its
  plan; and the plan has no erase for a sector without a byte that needs one, and no
  program for a page of such a sector that equals its desired page.
\<close>

lemma run_op_ops_subset:
  "set (new_ops sp (snd (run_op p sp))) \<subseteq> set (op_cmds (geometry sp) p)"
  by (auto simp: run_op_def erase_step_def program_step_def te_write_enable_def
      te_erase_sector_def te_program_page_def issue_def new_ops_def op_cmds_def)

lemma run_plan_ops_subset:
  "set (new_ops sp (snd (run_plan ps sp))) \<subseteq> set (concat (map (op_cmds (geometry sp)) ps))"
proof (induction ps arbitrary: sp)
  case Nil
  show ?case by (simp add: new_ops_def)
next
  case (Cons p ps)
  obtain r sp1 where one: "run_op p sp = (r, sp1)"
    by (cases "run_op p sp")
  have sub1: "set (new_ops sp sp1) \<subseteq> set (op_cmds (geometry sp) p)"
    using run_op_ops_subset [of sp p] one by simp
  show ?case
  proof (cases r)
    case (Inl e)
    with one sub1 show ?thesis by auto
  next
    case (Inr u)
    have inv1: "hw_log sp1 = hw_log sp @ new_ops sp sp1" "geometry sp1 = geometry sp"
      using log_inv_run_op [of sp p] one by (simp_all add: log_inv_def)
    have inv2: "hw_log (snd (run_plan ps sp1)) = hw_log sp1 @ new_ops sp1 (snd (run_plan ps sp1))"
      using run_plan_inv [of sp1 ps] by (simp add: log_inv_def)
    have "new_ops sp (snd (run_plan ps sp1)) = new_ops sp sp1 @ new_ops sp1 (snd (run_plan ps sp1))"
      using inv1(1) inv2 by (rule new_ops_trans(1))
    with Cons.IH [of sp1] sub1 inv1(2) one Inr show ?thesis
      by auto
  qed
qed

lemma enable_and_program_ops_subset:
  "set (new_ops sp (snd (enable_and_program sp offset buf len))) \<subseteq>
     {OpWriteEnable, OpRead 0 (unat (total_size (geometry sp)))} \<union>
     set (concat (map (op_cmds (geometry sp))
       (plan (map (cells sp) [0 ..< unat (total_size (geometry sp))])
          (desired_image (map (cells sp) [0 ..< unat (total_size (geometry sp))])
             (unat offset) (take (unat len) buf))
          (geometry sp) False)))"
proof (cases "next_fails sp")
  case True
  then show ?thesis
    by (simp add: enable_and_program_def spiflash_write_enable_def te_write_enable_def
        issue_def new_ops_def)
next
  case ok1: False
  let ?T = "unat (total_size (geometry sp))"
  let ?sp1 = "issue OpWriteEnable (sp\<lparr>wel := True\<rparr>)"
  let ?pl = "plan (map (cells sp) [0 ..< ?T])
          (desired_image (map (cells sp) [0 ..< ?T]) (unat offset) (take (unat len) buf))
          (geometry sp) False"
  have e: "enable_and_program sp offset buf len = spiflash_program_buffer ?sp1 offset buf len"
    using ok1
    by (simp add: enable_and_program_def spiflash_write_enable_def te_write_enable_def)
  show ?thesis
  proof (cases "next_fails ?sp1")
    case True
    then show ?thesis
      unfolding e
      by (simp add: spiflash_program_buffer_def te_read_def issue_def new_ops_def)
  next
    case False
    let ?sp2 = "issue (OpRead 0 ?T) ?sp1"
    have pb: "spiflash_program_buffer ?sp1 offset buf len = run_plan ?pl ?sp2"
      using False by (simp add: spiflash_program_buffer_def te_read_def issue_def)
    have g2: "geometry ?sp2 = geometry sp" and l2: "hw_log ?sp2 = hw_log sp @ [OpWriteEnable, OpRead 0 ?T]"
      by (simp_all add: issue_def)
    have "hw_log (snd (run_plan ?pl ?sp2)) = hw_log ?sp2 @ new_ops ?sp2 (snd (run_plan ?pl ?sp2))"
      using run_plan_inv [of ?sp2 ?pl] by (simp add: log_inv_def)
    then have "new_ops sp (snd (run_plan ?pl ?sp2)) =
        [OpWriteEnable, OpRead 0 ?T] @ new_ops ?sp2 (snd (run_plan ?pl ?sp2))"
      unfolding l2 by (simp add: new_ops_def [of sp])
    with run_plan_ops_subset [of ?sp2 ?pl] g2 show ?thesis
      unfolding e pb by auto
  qed
qed

lemma plan_sector_no_erase:
  assumes ok: "geometry_ok g"
    and len: "s + unat (sector_size g) \<le> length desired"
    and eqlen: "length current = length desired"
    and quiet: "\<And>b. s \<le> b \<Longrightarrow> b < s + unat (sector_size g) \<Longrightarrow>
                 current ! b AND desired ! b = desired ! b"
  shows "plan_sector current desired g False s =
     map (mk_op desired (unat (page_size g)) False)
       (filter (\<lambda>p. page_slice current p (unat (page_size g)) \<noteq>
                    page_slice desired p (unat (page_size g)))
          (sector_pages g s))"
proof -
  let ?n = "unat (page_size g)"
  have "programmable (page_slice current p ?n) (page_slice desired p ?n)"
    if p: "p \<in> set (sector_pages g s)" for p
  proof -
    have w: "s \<le> p" "p + ?n \<le> s + unat (sector_size g)"
      using sector_pages_within [OF ok p] by simp_all
    then have fit: "p + ?n \<le> length current" "p + ?n \<le> length desired"
      using len eqlen by simp_all
    show ?thesis
      unfolding programmable_page_iff [OF fit]
      using quiet w by auto
  qed
  then show ?thesis
    by (auto simp: plan_sector_def Let_def list_ex_iff)
qed

lemma plan_sector_members:
  assumes "q \<in> set (plan_sector current desired g False s)"
  shows "page_offset q \<in> set (sector_pages g s)"
    and "needs_erase q \<Longrightarrow> page_offset q = s"
    and "payload q = page_slice desired (page_offset q) (unat (page_size g))"
  using assms by (auto simp: plan_sector_def Let_def mk_op_sel split: if_splits)

lemma aligned_sector_unique:
  assumes S: "0 < S" and s: "s mod S = 0" and p: "s \<le> p" "p < s + S"
    and q: "j * S \<le> p" "p < j * S + S"
  shows "j * S = (s :: nat)"
proof -
  have si: "(s div S) * S = s"
    using s by auto
  have "p div S = s div S"
    using p si by (intro div_nat_eqI) (simp_all add: mult.commute)
  moreover have "p div S = j"
    using q by (intro div_nat_eqI) (simp_all add: mult.commute)
  ultimately show ?thesis
    using si by simp
qed

lemma plan_leaves_equal_page:
  assumes ok: "geometry_ok g"
    and eqlen: "length current = length desired"
    and al: "s mod unat (sector_size g) = 0"
    and len: "s + unat (sector_size g) \<le> length desired"
    and quiet: "\<And>b. s \<le> b \<Longrightarrow> b < s + unat (sector_size g) \<Longrightarrow>
                 current ! b AND desired ! b = desired ! b"
    and p: "p \<in> set (sector_pages g s)"
    and same: "\<And>a. p \<le> a \<Longrightarrow> a < p + unat (page_size g) \<Longrightarrow> current ! a = desired ! a"
    and c: "c \<in> set (concat (map (op_cmds g) (plan current desired g False)))"
  shows "c \<noteq> OpEraseSector s \<and> (\<forall>d. c \<noteq> OpProgramPage p d)"
proof -
  let ?n = "unat (page_size g)" and ?S = "unat (sector_size g)"
  have n: "0 < ?n" and S: "0 < ?S"
    using ok by (auto simp: geometry_ok_def)
  from c obtain q j where q: "q \<in> set (plan_sector current desired g False (j * ?S))"
    and cq: "c \<in> set (op_cmds g q)"
    by (auto simp: plan_def)
  note m = plan_sector_members [OF q]
  have pw: "s \<le> p" "p + ?n \<le> s + ?S"
    using sector_pages_within [OF ok p] by simp_all
  have qw: "j * ?S \<le> page_offset q" "page_offset q + ?n \<le> j * ?S + ?S"
    using sector_pages_within [OF ok m(1)] by simp_all
  have quiet_plan: "plan_sector current desired g False s =
      map (mk_op desired ?n False)
        (filter (\<lambda>p. page_slice current p ?n \<noteq> page_slice desired p ?n) (sector_pages g s))"
    by (rule plan_sector_no_erase [OF ok len eqlen quiet])
  have no_erase: "c \<noteq> OpEraseSector s"
  proof
    assume "c = OpEraseSector s"
    with cq have ne: "needs_erase q" and sb: "sector_base g (page_offset q) = s"
      by (auto simp: op_cmds_def split: if_splits)
    from m(2) [OF ne] sb S have "j * ?S = s"
      by (simp add: sector_base_def)
    with q quiet_plan ne show False
      by (auto simp: mk_op_sel)
  qed
  have no_program: "c \<noteq> OpProgramPage p d" for d
  proof
    assume "c = OpProgramPage p d"
    with cq have po: "page_offset q = p"
      by (auto simp: op_cmds_def split: if_splits)
    have "j * ?S = s"
      using pw qw n po by (intro aligned_sector_unique [OF S al, of p j]) simp_all
    with q quiet_plan po have "page_slice current p ?n \<noteq> page_slice desired p ?n"
      by (auto simp: mk_op_sel)
    moreover have fit: "p + ?n \<le> length current" "p + ?n \<le> length desired"
      using pw len eqlen by simp_all
    ultimately show False
      unfolding page_slice_eq_iff [OF fit] using same by auto
  qed
  from no_erase no_program show ?thesis by blast
qed

lemma aligned_sector_fits:
  assumes ok: "geometry_ok g" and al: "s mod unat (sector_size g) = 0"
    and s: "s < unat (total_size g)"
  shows "s + unat (sector_size g) \<le> unat (total_size g)"
proof -
  let ?T = "unat (total_size g)" and ?S = "unat (sector_size g)"
  have S: "0 < ?S" and T: "(?T div ?S) * ?S = ?T"
    using ok by (auto simp: geometry_ok_def)
  have sj: "(s div ?S) * ?S = s"
    using al by auto
  have "s div ?S < ?T div ?S"
    using s S T sj by (metis mult_less_cancel2)
  then have "Suc (s div ?S) * ?S \<le> (?T div ?S) * ?S"
    by (intro mult_le_mono1) simp
  then show ?thesis
    using sj T by simp
qed

lemma equal_page_left_alone:
  assumes ok: "geometry_ok (geometry (spi w))"
    and inp: "open_input filename w = Some input"
    and range: "unat offset + length (fread_bytes (spiflash_size (spi w)) input)
                  \<le> unat (spiflash_size (spi w))"
    and al: "s mod unat (sector_size (geometry (spi w))) = 0"
    and s: "s < unat (total_size (geometry (spi w)))"
    and quiet: "\<And>b. s \<le> b \<Longrightarrow> b < s + unat (sector_size (geometry (spi w))) \<Longrightarrow>
       cells (spi w) b AND
         desired_cell (cells (spi w)) (unat offset) (fread_bytes (spiflash_size (spi w)) input) b
       = desired_cell (cells (spi w)) (unat offset) (fread_bytes (spiflash_size (spi w)) input) b"
    and p: "p \<in> set (sector_pages (geometry (spi w)) s)"
    and same: "\<And>a. p \<le> a \<Longrightarrow> a < p + unat (page_size (geometry (spi w))) \<Longrightarrow>
       cells (spi w) a =
         desired_cell (cells (spi w)) (unat offset) (fread_bytes (spiflash_size (spi w)) input) a"
    and c: "c \<in> set (new_ops (spi w) (spi (snd (write_to_spi filename offset length0 w))))"
  shows "c \<noteq> OpEraseSector s \<and> (\<forall>d. c \<noteq> OpProgramPage p d)"
proof -
  let ?g = "geometry (spi w)"
  let ?T = "unat (total_size ?g)" and ?S = "unat (sector_size ?g)" and ?n = "unat (page_size ?g)"
  let ?fs = "spiflash_size (spi w)"
  let ?data = "fread_bytes ?fs input"
  let ?len = "word_of_nat (length ?data) :: u32"
  let ?D = "desired_cell (cells (spi w)) (unat offset) ?data"
  let ?current = "map (cells (spi w)) [0 ..< ?T]"
  let ?desired = "desired_image ?current (unat offset) ?data"
  let ?r = "write_to_spi filename offset length0 w"
  from write_to_spi_handle [of filename offset length0 w] c inp
  have hw: "spi (snd ?r) = snd (enable_and_program (spi w) offset (fread_buf ?fs input) ?len)"
    by (auto simp: new_ops_def)
  have tk: "take (unat ?len) (fread_buf ?fs input) = ?data"
    unfolding fread_bytes_unat by (rule fread_buf_take)
  from c enable_and_program_ops_subset [of "spi w" offset "fread_buf ?fs input" ?len]
  have cases: "c = OpWriteEnable \<or> c = OpRead 0 ?T \<or>
      c \<in> set (concat (map (op_cmds ?g) (plan ?current ?desired ?g False)))"
    unfolding hw tk by auto
  have fits: "unat offset + length ?data \<le> length ?current"
    using range by (simp add: spiflash_size_def)
  have dlen: "length ?desired = ?T"
    using desired_image_length [OF fits] by simp
  have dn: "?desired ! a = ?D a" if "a < ?T" for a
    using desired_image_nth [OF fits, of a] that by (simp add: desired_cell_def)
  have sfit: "s + ?S \<le> ?T"
    by (rule aligned_sector_fits [OF ok al s])
  have pw: "s \<le> p" "p + ?n \<le> s + ?S"
    using sector_pages_within [OF ok p] by simp_all
  have q': "?current ! b AND ?desired ! b = ?desired ! b" if "s \<le> b" "b < s + ?S" for b
    using quiet [OF that] dn [of b] that sfit by simp
  have s': "?current ! a = ?desired ! a" if "p \<le> a" "a < p + ?n" for a
    using same [OF that] dn [of a] that sfit pw by simp
  have elen: "length ?current = length ?desired"
    using dlen by simp
  have slen: "s + ?S \<le> length ?desired"
    using dlen sfit by simp
  from cases show ?thesis
  proof (elim disjE)
    assume "c = OpWriteEnable"
    then show ?thesis by simp
  next
    assume "c = OpRead 0 ?T"
    then show ?thesis by simp
  next
    assume "c \<in> set (concat (map (op_cmds ?g) (plan ?current ?desired ?g False)))"
    from plan_leaves_equal_page [OF ok elen al slen q' p s' this]
    show ?thesis .
  qed
qed

subsection \<open>Evaluating the model\<close>

lemmas run_defs =
  small_geometry_def example_geometry_def chip_def bench_def write_to_spi_def
  read_from_spi_def main_def
  open_input_def spiflash_size_def fread_bytes_def fread_buf_def spiflash_write_enable_def
  te_write_enable_def next_fails_def issue_def vprint_def print_def eprint_def
  spiflash_program_buffer_def te_read_def desired_image_def plan_def plan_sector_def
  sector_pages_def page_slice_def programmable_def mk_op_def run_op_def erase_step_def
  program_step_def te_erase_sector_def te_program_page_def sector_base_def
  erased_cells_def programmed_cells_def new_ops_def EXIT_SUCCESS_def EXIT_FAILURE_def
  spiflash_init_def spiflash_read_def no_arguments_def geometry_ok_def desired_cell_def
  bytes_read_def dumped_def Let_def

text \<open>The same with the lists \<open>[i ..< j]\<close> of the small chip written out.\<close>

lemmas small_run_defs = run_defs upt_conv_Cons

section \<open>The claims\<close>

subsection \<open>C1: the range test\<close>

text \<open>
  The part of the range test that holds: a request whose end \<open>offset + length\<close>, computed
  without wrap-around, lies beyond the flash size is refused before the handle is used.
\<close>

lemma read_beyond_flash_refused:
  assumes "length0 \<noteq> 0"
    and "unat offset + unat length0 < 2 ^ 32"
    and "unat (spiflash_size (spi w)) < unat offset + unat length0"
  shows "read_from_spi filename offset length0 w =
     (EXIT_FAILURE, eprint (MsgOutOfRange offset length0 (spiflash_size (spi w))) w)"
proof -
  have "unat (offset + length0) = unat offset + unat length0"
    using assms(2) by (simp add: unat_add_lem [THEN iffD1])
  then have "spiflash_size (spi w) < offset + length0"
    using assms(3) by (simp add: word_less_nat_alt)
  then show ?thesis
    using assms(1) by (simp add: read_from_spi_def Let_def)
qed

lemma write_beyond_flash_refused:
  assumes "open_input filename w = Some input"
    and "length0 = 0 \<or> length (fread_bytes (spiflash_size (spi w)) input) = unat length0"
    and "unat offset + length (fread_bytes (spiflash_size (spi w)) input) < 2 ^ 32"
    and "unat (spiflash_size (spi w)) < unat offset + length (fread_bytes (spiflash_size (spi w)) input)"
  shows "write_to_spi filename offset length0 w =
     (EXIT_FAILURE,
      eprint (MsgOutOfRange offset (bytes_read filename w) (spiflash_size (spi w))) w)"
proof -
  let ?n = "bytes_read filename w"
  have n: "unat ?n = length (fread_bytes (spiflash_size (spi w)) input)"
    using assms(1) by (simp add: bytes_read_def fread_bytes_unat)
  then have "unat (offset + ?n) = unat offset + unat ?n"
    using assms(3) by (simp add: unat_add_lem [THEN iffD1])
  then have far: "spiflash_size (spi w) < offset + ?n"
    using assms(4) n by (simp add: word_less_nat_alt)
  have len: "length0 = 0 \<or> length0 = ?n"
    using assms(2) n by (auto simp: word_unat_eq_iff)
  from far len assms(1) show ?thesis
    by (auto simp: write_to_spi_def Let_def bytes_read_def)
qed

text \<open>
  C1 (for every offset and length such that \<open>offset + length > total_size\<close>, or such that
  the addition overflows the 32-bit unsigned range, the read and the write fail and perform
  zero hardware operations): the code makes the test on the wrapped sum. On the chip of the
  spec's example (1 MiB), \<^verbatim>\<open>-r out -O 0x10 -n 0xfffffff8\<close> passes the test of \<^verbatim>\<open>main\<close>
  (\<open>0x10 \<le> 0x100000\<close>) and the test of \<^verbatim>\<open>read_from_spi\<close> (\<open>0x10 + 0xfffffff8\<close> is
  \<open>8\<close>), the flash is read from \<open>0x10\<close> for \<open>0xfffffff8\<close> bytes, and the command succeeds.
\<close>

theorem range_test_wraps:
  "fst (main [OptR ''out'', OptO 0x10, OptN 0xFFFFFFF8] 0
          (bench (chip example_geometry 0xFF (\<lambda>n. False)) [])) = EXIT_SUCCESS \<and>
   hw_log (spi (snd (main [OptR ''out'', OptO 0x10, OptN 0xFFFFFFF8] 0
          (bench (chip example_geometry 0xFF (\<lambda>n. False)) [])))) = [OpRead 0x10 0xFFFFFFF8]"
  by (simp add: run_defs del: upt_rec_numeral)

subsection \<open>C8: the default lengths\<close>

lemma bytes_read_unat:
  "open_input filename w = Some input \<Longrightarrow>
     unat (bytes_read filename w) = min (length input) (unat (spiflash_size (spi w) + 1))"
  using fread_bytes_unat [of "spiflash_size (spi w)" input]
  by (simp add: bytes_read_def fread_bytes_def)

text \<open>
  C8 (for every invocation where the length argument is zero or omitted, a read defaults its
  length to \<open>flash_size - offset\<close> and a write defaults its length to the number of bytes
  actually read from the input file). A call with length zero does what the call with that
  length does. The read, once its buffer is allocated, calls \<^verbatim>\<open>spiflash_read\<close> with the
  offset and \<open>flash_size - offset\<close>, which is the one operation it issues, and on success
  the file holds what the driver returned. The write counts the bytes \<^verbatim>\<open>fread\<close> obtained (the
  length of the input, at most \<open>flash_size + 1\<close>); its range test is made with that count
  and reports it when it fails, and \<^verbatim>\<open>spiflash_program_buffer\<close> is called with that count as
  its length.
\<close>

theorem zero_length_defaults:
  "read_from_spi filename offset 0 w =
     read_from_spi filename offset (spiflash_size (spi w) - offset) w \<and>
   write_to_spi filename offset 0 w = write_to_spi filename offset (bytes_read filename w) w \<and>
   (calloc_ok w (unat (spiflash_size (spi w) - offset)) \<longrightarrow>
      spi (snd (read_from_spi filename offset 0 w)) =
        snd (spiflash_read (spi w) offset (spiflash_size (spi w) - offset)) \<and>
      new_ops (spi w) (spi (snd (read_from_spi filename offset 0 w))) =
        [OpRead (unat offset) (unat (spiflash_size (spi w) - offset))] \<and>
      (\<forall>buf. fst (spiflash_read (spi w) offset (spiflash_size (spi w) - offset)) = Inr buf \<and>
             filename \<noteq> ''-'' \<and> creatable w filename \<longrightarrow>
             fst (read_from_spi filename offset 0 w) = EXIT_SUCCESS \<and>
             files (snd (read_from_spi filename offset 0 w)) filename = Some buf)) \<and>
   (\<forall>input. open_input filename w = Some input \<longrightarrow>
      unat (bytes_read filename w) = min (length input) (unat (spiflash_size (spi w) + 1)) \<and>
      (spiflash_size (spi w) < offset + bytes_read filename w \<longrightarrow>
         write_to_spi filename offset 0 w =
           (EXIT_FAILURE,
            eprint (MsgOutOfRange offset (bytes_read filename w) (spiflash_size (spi w))) w)) \<and>
      (\<not> spiflash_size (spi w) < offset + bytes_read filename w \<longrightarrow>
         (\<forall>u sp1. spiflash_write_enable (spi w) = (Inr u, sp1) \<longrightarrow>
            spi (snd (write_to_spi filename offset 0 w)) =
              snd (spiflash_program_buffer sp1 offset
                     (fread_buf (spiflash_size (spi w)) input) (bytes_read filename w)) \<and>
            (fst (write_to_spi filename offset 0 w) = EXIT_SUCCESS) =
              (\<not> isl (fst (spiflash_program_buffer sp1 offset
                     (fread_buf (spiflash_size (spi w)) input) (bytes_read filename w)))))))"
proof (intro conjI impI allI)
  show "read_from_spi filename offset 0 w =
     read_from_spi filename offset (spiflash_size (spi w) - offset) w"
    by (simp add: read_from_spi_def Let_def)
next
  show "write_to_spi filename offset 0 w = write_to_spi filename offset (bytes_read filename w) w"
    by (cases "open_input filename w") (simp_all add: write_to_spi_def bytes_read_def Let_def)
next
  assume c: "calloc_ok w (unat (spiflash_size (spi w) - offset))"
  then show "spi (snd (read_from_spi filename offset 0 w)) =
        snd (spiflash_read (spi w) offset (spiflash_size (spi w) - offset))"
    by (simp add: read_from_spi_def Let_def split: prod.splits sum.splits)
  then show "new_ops (spi w) (spi (snd (read_from_spi filename offset 0 w))) =
        [OpRead (unat offset) (unat (spiflash_size (spi w) - offset))]"
    by (simp add: spiflash_read_def te_read_def issue_def new_ops_def)
  fix buf
  assume "fst (spiflash_read (spi w) offset (spiflash_size (spi w) - offset)) = Inr buf \<and>
             filename \<noteq> ''-'' \<and> creatable w filename"
  with c show "fst (read_from_spi filename offset 0 w) = EXIT_SUCCESS"
    and "files (snd (read_from_spi filename offset 0 w)) filename = Some buf"
    by (auto simp: read_from_spi_def Let_def vprint_def print_def split: prod.splits sum.splits)
next
  fix input
  assume inp: "open_input filename w = Some input"
  then show "unat (bytes_read filename w) = min (length input) (unat (spiflash_size (spi w) + 1))"
    by (rule bytes_read_unat)
  {
    assume "spiflash_size (spi w) < offset + bytes_read filename w"
    with inp show "write_to_spi filename offset 0 w =
           (EXIT_FAILURE,
            eprint (MsgOutOfRange offset (bytes_read filename w) (spiflash_size (spi w))) w)"
      by (simp add: write_to_spi_def bytes_read_def Let_def)
  }
  fix u sp1
  assume fit: "\<not> spiflash_size (spi w) < offset + bytes_read filename w"
    and we: "spiflash_write_enable (spi w) = (Inr u, sp1)"
  from inp fit we show "spi (snd (write_to_spi filename offset 0 w)) =
              snd (spiflash_program_buffer sp1 offset
                     (fread_buf (spiflash_size (spi w)) input) (bytes_read filename w))"
    by (simp add: write_to_spi_def bytes_read_def Let_def split: prod.splits sum.splits)
  from inp fit we exit_codes show "(fst (write_to_spi filename offset 0 w) = EXIT_SUCCESS) =
              (\<not> isl (fst (spiflash_program_buffer sp1 offset
                     (fread_buf (spiflash_size (spi w)) input) (bytes_read filename w))))"
    by (auto simp: write_to_spi_def bytes_read_def Let_def split: prod.splits sum.splits)
qed

text \<open>
  On the small chip, blank: the read at offset 2 with length zero reads six bytes into the
  file; the write of a file of two bytes with length zero is refused at offset 7 with the
  length 2 in the message, and at offset 0 programs the two bytes and no third.
\<close>

theorem zero_length_defaults_witness:
  "calloc_ok (bench (chip small_geometry 0xFF (\<lambda>n. False)) [0xAA, 0xAA])
     (unat (spiflash_size (spi (bench (chip small_geometry 0xFF (\<lambda>n. False)) [0xAA, 0xAA])) - 2)) \<and>
   new_ops (spi (bench (chip small_geometry 0xFF (\<lambda>n. False)) [0xAA, 0xAA]))
     (spi (snd (read_from_spi ''out'' 2 0 (bench (chip small_geometry 0xFF (\<lambda>n. False)) [0xAA, 0xAA]))))
     = [OpRead 2 6] \<and>
   files (snd (read_from_spi ''out'' 2 0 (bench (chip small_geometry 0xFF (\<lambda>n. False)) [0xAA, 0xAA])))
     ''out'' = Some [0xFF, 0xFF, 0xFF, 0xFF, 0xFF, 0xFF] \<and>
   bytes_read ''img'' (bench (chip small_geometry 0xFF (\<lambda>n. False)) [0xAA, 0xAA]) = 2 \<and>
   write_to_spi ''img'' 7 0 (bench (chip small_geometry 0xFF (\<lambda>n. False)) [0xAA, 0xAA]) =
     (EXIT_FAILURE,
      eprint (MsgOutOfRange 7 2 8) (bench (chip small_geometry 0xFF (\<lambda>n. False)) [0xAA, 0xAA])) \<and>
   map (cells (spi (snd (write_to_spi ''img'' 0 0
          (bench (chip small_geometry 0xFF (\<lambda>n. False)) [0xAA, 0xAA]))))) [0, 1, 2] =
     [0xAA, 0xAA, 0xFF]"
proof -
  let ?w = "bench (chip small_geometry 0xFF (\<lambda>n. False)) [0xAA, 0xAA]"
  let ?sp1 = "issue OpWriteEnable ((spi ?w)\<lparr>wel := True\<rparr>)"
  have c: "calloc_ok ?w (unat (spiflash_size (spi ?w) - 2))"
    by (simp add: run_defs)
  have rd: "fst (spiflash_read (spi ?w) 2 (spiflash_size (spi ?w) - 2)) =
        Inr [0xFF, 0xFF, 0xFF, 0xFF, 0xFF, 0xFF] \<and> ''out'' \<noteq> ''-'' \<and> creatable ?w ''out''"
    by (simp add: small_run_defs)
  have inp: "open_input ''img'' ?w = Some [0xAA, 0xAA]"
    by (simp add: run_defs)
  have n: "bytes_read ''img'' ?w = 2"
    by (simp add: run_defs)
  have far: "spiflash_size (spi ?w) < 7 + bytes_read ''img'' ?w"
    unfolding n by (simp add: run_defs)
  have near: "\<not> spiflash_size (spi ?w) < 0 + bytes_read ''img'' ?w"
    unfolding n by (simp add: run_defs)
  have we: "spiflash_write_enable (spi ?w) = (Inr (), ?sp1)"
    by (simp add: run_defs)
  note r2 = zero_length_defaults [of "''out''" 2 ?w, THEN conjunct2, THEN conjunct2,
      THEN conjunct1, rule_format, OF c]
  have ops: "new_ops (spi ?w) (spi (snd (read_from_spi ''out'' 2 0 ?w))) = [OpRead 2 6]"
    using r2 [THEN conjunct2, THEN conjunct1] by (simp add: run_defs)
  have out: "files (snd (read_from_spi ''out'' 2 0 ?w)) ''out'' =
      Some [0xFF, 0xFF, 0xFF, 0xFF, 0xFF, 0xFF]"
    using r2 [THEN conjunct2, THEN conjunct2, rule_format, OF rd] by (rule conjunct2)
  have fail: "write_to_spi ''img'' 7 0 ?w = (EXIT_FAILURE, eprint (MsgOutOfRange 7 2 8) ?w)"
    using zero_length_defaults [of "''img''" 7 ?w, THEN conjunct2, THEN conjunct2,
        THEN conjunct2, rule_format, OF inp, THEN conjunct2, THEN conjunct1, rule_format, OF far]
    unfolding n by (simp add: run_defs)
  have "spi (snd (write_to_spi ''img'' 0 0 ?w)) =
      snd (spiflash_program_buffer ?sp1 0 (fread_buf (spiflash_size (spi ?w)) [0xAA, 0xAA])
             (bytes_read ''img'' ?w))"
    using zero_length_defaults [of "''img''" 0 ?w, THEN conjunct2, THEN conjunct2,
        THEN conjunct2, rule_format, OF inp, THEN conjunct2, THEN conjunct2, rule_format,
        OF near we]
    by (rule conjunct1)
  then have prog: "map (cells (spi (snd (write_to_spi ''img'' 0 0 ?w)))) [0, 1, 2] =
      [0xAA, 0xAA, 0xFF]"
    unfolding n by (simp add: small_run_defs)
  from c ops out n fail prog show ?thesis
    by (intro conjI)
qed

subsection \<open>C9: an input of the wrong size\<close>

lemma read_len_eq_iff:
  "(word_of_nat (length (fread_bytes fs input)) = (n :: u32)) =
   (length (fread_bytes fs input) = unat n)"
  using fread_bytes_unat [of fs input] by auto

text \<open>
  C9 (for every write with an explicit nonzero length, if the number of bytes obtained from
  the input file differs from that length, shorter or longer, the write fails before any
  bounds check, write-enable or flash operation; the input is never padded): the write
  returns \<^verbatim>\<open>EXIT_FAILURE\<close>, the only change to the world is the message about the two
  lengths on standard error (not the message of the range test), and the handle is as it was.
\<close>

theorem wrong_size_input_refused:
  assumes "length0 \<noteq> 0"
    and "open_input filename w = Some input"
    and "length (fread_bytes (spiflash_size (spi w)) input) \<noteq> unat length0"
  shows "write_to_spi filename offset length0 w =
     (EXIT_FAILURE, eprint (MsgShortRead (bytes_read filename w) length0) w)"
  using assms by (simp add: write_to_spi_def Let_def read_len_eq_iff bytes_read_def)

text \<open>
  Two bytes of input for a requested length of five, and five bytes for a requested length
  of two, at an offset where the range test would refuse a length of five.
\<close>

theorem wrong_size_input_refused_witness:
  "write_to_spi ''img'' 6 5 (bench (chip small_geometry 0xFF (\<lambda>n. False)) [0xAA, 0xAA]) =
     (EXIT_FAILURE,
      eprint (MsgShortRead 2 5) (bench (chip small_geometry 0xFF (\<lambda>n. False)) [0xAA, 0xAA])) \<and>
   write_to_spi ''img'' 0 2 (bench (chip small_geometry 0xFF (\<lambda>n. False)) [1, 2, 3, 4, 5]) =
     (EXIT_FAILURE,
      eprint (MsgShortRead 5 2) (bench (chip small_geometry 0xFF (\<lambda>n. False)) [1, 2, 3, 4, 5]))"
proof -
  let ?short = "bench (chip small_geometry 0xFF (\<lambda>n. False)) [0xAA, 0xAA]"
  let ?long = "bench (chip small_geometry 0xFF (\<lambda>n. False)) [1, 2, 3, 4, 5]"
  have s: "(5 :: u32) \<noteq> 0" "open_input ''img'' ?short = Some [0xAA, 0xAA]"
    "length (fread_bytes (spiflash_size (spi ?short)) [0xAA, 0xAA]) \<noteq> unat (5 :: u32)"
    by (simp_all add: run_defs)
  have l: "(2 :: u32) \<noteq> 0" "open_input ''img'' ?long = Some [1, 2, 3, 4, 5]"
    "length (fread_bytes (spiflash_size (spi ?long)) [1, 2, 3, 4, 5]) \<noteq> unat (2 :: u32)"
    by (simp_all add: run_defs)
  have "bytes_read ''img'' ?short = 2" "bytes_read ''img'' ?long = 5"
    by (simp_all add: run_defs)
  with wrong_size_input_refused [OF s, of 6] wrong_size_input_refused [OF l, of 0]
  show ?thesis by simp
qed

subsection \<open>C10: a flash read that fails\<close>

text \<open>
  C10 (for every read invocation, if the flash read itself fails, the command returns failure
  and the output file is never opened, created or written to): when \<^verbatim>\<open>spiflash_read\<close>, called
  with the offset and the length the command uses, reports an error, the command returns
  \<^verbatim>\<open>EXIT_FAILURE\<close>, no file is created or changed and no dump reaches standard output. (With
  \<^verbatim>\<open>-v\<close> the message that announces the read is on standard output by then; it is printed
  before the read.)
\<close>

theorem failed_read_opens_nothing:
  assumes "fst (spiflash_read (spi w) offset
                 (if length0 = 0 then spiflash_size (spi w) - offset else length0)) = Inl e"
  shows "fst (read_from_spi filename offset length0 w) = EXIT_FAILURE \<and>
         files (snd (read_from_spi filename offset length0 w)) = files w \<and>
         dumped (snd (read_from_spi filename offset length0 w)) = dumped w"
  using assms
  by (auto simp add: read_from_spi_def Let_def spiflash_read_def te_read_def eprint_def vprint_def
      print_def dumped_def split: if_splits)

text \<open>A read of the whole small chip whose first operation fails, to a file and to "-".\<close>

theorem failed_read_opens_nothing_witness:
  "fst (spiflash_read (spi (bench (chip small_geometry 0xFF (\<lambda>n. True)) [])) 0 8) =
     Inl HardwareTimeout \<and>
   fst (read_from_spi ''out'' 0 0 (bench (chip small_geometry 0xFF (\<lambda>n. True)) [])) = EXIT_FAILURE \<and>
   files (snd (read_from_spi ''out'' 0 0 (bench (chip small_geometry 0xFF (\<lambda>n. True)) []))) ''out''
     = None \<and>
   dumped (snd (read_from_spi ''-'' 0 0 (bench (chip small_geometry 0xFF (\<lambda>n. True)) []))) = [] \<and>
   hw_log (spi (snd (read_from_spi ''out'' 0 0 (bench (chip small_geometry 0xFF (\<lambda>n. True)) []))))
     = [OpRead 0 8]"
proof -
  let ?w = "bench (chip small_geometry 0xFF (\<lambda>n. True)) []"
  have h: "fst (spiflash_read (spi ?w) 0
                  (if (0 :: u32) = 0 then spiflash_size (spi ?w) - 0 else 0)) = Inl HardwareTimeout"
    by (simp add: run_defs)
  have log: "hw_log (spi (snd (read_from_spi ''out'' 0 0 ?w))) = [OpRead 0 8]"
    by (simp add: run_defs)
  have "files ?w ''out'' = None" "dumped ?w = []"
    "fst (spiflash_read (spi ?w) 0 8) = Inl HardwareTimeout"
    by (simp_all add: run_defs)
  with failed_read_opens_nothing [OF h, of "''out''"] failed_read_opens_nothing [OF h, of "''-''"] log
  show ?thesis by simp
qed

subsection \<open>C5: the first failure ends the write\<close>

text \<open>
  C5 (for every write request, if enabling writes fails, the write returns failure
  immediately and no program operation is attempted; more generally the first failing step
  of a write aborts all remaining operations of that write): when \<^verbatim>\<open>spiflash_write_enable\<close>
  on the handle reports an error, \<^verbatim>\<open>write_to_spi\<close> returns \<^verbatim>\<open>EXIT_FAILURE\<close> and has issued
  nothing but write-enable; and whichever operation of a write fails, it is the last one the
  write issues, and the write returns \<^verbatim>\<open>EXIT_FAILURE\<close>.
\<close>

theorem write_stops_at_first_failure:
  "(isl (fst (spiflash_write_enable (spi w))) \<longrightarrow>
      fst (write_to_spi filename offset length0 w) = EXIT_FAILURE \<and>
      (\<forall>c\<in>set (new_ops (spi w) (spi (snd (write_to_spi filename offset length0 w)))).
         c = OpWriteEnable)) \<and>
   (\<forall>i. i < length (new_ops (spi w) (spi (snd (write_to_spi filename offset length0 w)))) \<and>
        faulty (spi w) (length (hw_log (spi w)) + i) \<longrightarrow>
        Suc i = length (new_ops (spi w) (spi (snd (write_to_spi filename offset length0 w)))) \<and>
        fst (write_to_spi filename offset length0 w) = EXIT_FAILURE)"
proof -
  let ?r = "write_to_spi filename offset length0 w"
  let ?ops = "new_ops (spi w) (spi (snd ?r))"
  from write_to_spi_handle [of filename offset length0 w]
  consider (early) "fst ?r = EXIT_FAILURE" "spi (snd ?r) = spi w"
    | (hw) buf len where "spi (snd ?r) = snd (enable_and_program (spi w) offset buf len)"
        "(fst ?r = EXIT_FAILURE) = isl (fst (enable_and_program (spi w) offset buf len))"
    by metis
  then show ?thesis
  proof cases
    case early
    then show ?thesis by (simp add: new_ops_def)
  next
    case hw
    let ?e = "enable_and_program (spi w) offset buf len"
    from enable_and_program_inv [of "spi w" offset buf len]
    have out: "outcome_ok (faulty (spi w)) (length (hw_log (spi w))) (isl (fst ?e)) ?ops"
      using hw(1) by (simp add: log_inv_def)
    have first: "fst ?r = EXIT_FAILURE \<and> ?ops = [OpWriteEnable]"
      if "isl (fst (spiflash_write_enable (spi w)))"
    proof -
      from that have "next_fails (spi w)"
        by (simp add: spiflash_write_enable_def te_write_enable_def split: if_splits)
      with hw show ?thesis
        by (simp add: enable_and_program_def spiflash_write_enable_def te_write_enable_def
            issue_def new_ops_def)
    qed
    have later: "Suc i = length ?ops \<and> fst ?r = EXIT_FAILURE"
      if "i < length ?ops" "faulty (spi w) (length (hw_log (spi w)) + i)" for i
    proof (cases "isl (fst ?e)")
      case True
      with out that have "\<not> Suc i < length ?ops"
        by (auto simp: outcome_ok_def)
      with that(1) True hw(2) show ?thesis by simp
    next
      case False
      with out that show ?thesis
        by (auto simp: outcome_ok_def)
    qed
    from first later show ?thesis by auto
  qed
qed

text \<open>
  On the small chip holding zeros, a write of \<open>AA AA\<close> at offset 0: with a write-enable that
  fails, and with an erase (the fourth operation) that times out.
\<close>

theorem write_stops_at_first_failure_witness:
  "isl (fst (spiflash_write_enable (spi (bench (chip small_geometry 0 (\<lambda>n. n = 0)) [0xAA, 0xAA])))) \<and>
   fst (write_to_spi ''img'' 0 0 (bench (chip small_geometry 0 (\<lambda>n. n = 0)) [0xAA, 0xAA])) =
     EXIT_FAILURE \<and>
   new_ops (chip small_geometry 0 (\<lambda>n. n = 0))
     (spi (snd (write_to_spi ''img'' 0 0 (bench (chip small_geometry 0 (\<lambda>n. n = 0)) [0xAA, 0xAA]))))
     = [OpWriteEnable] \<and>
   new_ops (chip small_geometry 0 (\<lambda>n. n = 3))
     (spi (snd (write_to_spi ''img'' 0 0 (bench (chip small_geometry 0 (\<lambda>n. n = 3)) [0xAA, 0xAA]))))
     = [OpWriteEnable, OpRead 0 8, OpWriteEnable, OpEraseSector 0] \<and>
   fst (write_to_spi ''img'' 0 0 (bench (chip small_geometry 0 (\<lambda>n. n = 3)) [0xAA, 0xAA])) =
     EXIT_FAILURE"
proof -
  let ?w0 = "bench (chip small_geometry 0 (\<lambda>n. n = 0)) [0xAA, 0xAA]"
  let ?w3 = "bench (chip small_geometry 0 (\<lambda>n. n = 3)) [0xAA, 0xAA]"
  have h0: "isl (fst (spiflash_write_enable (spi ?w0)))"
    by (simp add: run_defs)
  have ops0: "new_ops (chip small_geometry 0 (\<lambda>n. n = 0)) (spi (snd (write_to_spi ''img'' 0 0 ?w0)))
      = [OpWriteEnable]"
    by (simp add: small_run_defs)
  have ops3: "new_ops (spi ?w3) (spi (snd (write_to_spi ''img'' 0 0 ?w3)))
      = [OpWriteEnable, OpRead 0 8, OpWriteEnable, OpEraseSector 0]"
    by (simp add: small_run_defs)
  have h3: "3 < length (new_ops (spi ?w3) (spi (snd (write_to_spi ''img'' 0 0 ?w3)))) \<and>
      faulty (spi ?w3) (length (hw_log (spi ?w3)) + 3)"
    unfolding ops3 by (simp add: run_defs)
  from write_stops_at_first_failure [of ?w0 "''img''" 0 0, THEN conjunct1, rule_format, OF h0]
  have r0: "fst (write_to_spi ''img'' 0 0 ?w0) = EXIT_FAILURE"
    by simp
  from write_stops_at_first_failure [of ?w3 "''img''" 0 0, THEN conjunct2, rule_format, OF h3]
  have r3: "fst (write_to_spi ''img'' 0 0 ?w3) = EXIT_FAILURE"
    by simp
  have "spi ?w3 = chip small_geometry 0 (\<lambda>n. n = 3)"
    by (simp add: bench_def)
  with h0 r0 ops0 ops3 r3 show ?thesis
    by simp
qed

subsection \<open>C6: a write-enable before every erase and every program\<close>

text \<open>
  C6 (for every write that programs or erases more than one page, a write-enable command is
  issued immediately before every individual erase and every individual page-program
  command, not merely once at the start of the whole write): the operations of a write
  extend the log, and each erase and each program among them stands right after a
  write-enable of the same write.
\<close>

theorem write_enable_before_each_command:
  "hw_log (spi (snd (write_to_spi filename offset length0 w))) =
     hw_log (spi w) @ new_ops (spi w) (spi (snd (write_to_spi filename offset length0 w))) \<and>
   (\<forall>i<length (new_ops (spi w) (spi (snd (write_to_spi filename offset length0 w)))).
      is_modify (new_ops (spi w) (spi (snd (write_to_spi filename offset length0 w))) ! i) \<longrightarrow>
      0 < i \<and>
      new_ops (spi w) (spi (snd (write_to_spi filename offset length0 w))) ! (i - 1) =
        OpWriteEnable)"
proof -
  have "hw_log (spi (snd (write_to_spi filename offset length0 w))) =
      hw_log (spi w) @ new_ops (spi w) (spi (snd (write_to_spi filename offset length0 w))) \<and>
    enable_first (new_ops (spi w) (spi (snd (write_to_spi filename offset length0 w))))"
    using write_to_spi_handle [of filename offset length0 w]
      enable_and_program_inv [of "spi w" offset]
    by (auto simp: new_ops_def enable_first_def log_inv_def)
  then show ?thesis
    by (simp add: enable_first_def)
qed

text \<open>
  On the small chip holding zeros, the write of \<open>AA AA\<close> at offset 0 erases the first sector
  and programs its two pages: eight operations, the erase and the two programs each after a
  write-enable of its own.
\<close>

theorem write_enable_before_each_command_witness:
  "new_ops (chip small_geometry 0 (\<lambda>n. False))
     (spi (snd (write_to_spi ''img'' 0 0 (bench (chip small_geometry 0 (\<lambda>n. False)) [0xAA, 0xAA]))))
     = [OpWriteEnable, OpRead 0 8, OpWriteEnable, OpEraseSector 0,
        OpWriteEnable, OpProgramPage 0 [0xAA, 0xAA], OpWriteEnable, OpProgramPage 2 [0, 0]] \<and>
   new_ops (chip small_geometry 0 (\<lambda>n. False))
     (spi (snd (write_to_spi ''img'' 0 0 (bench (chip small_geometry 0 (\<lambda>n. False)) [0xAA, 0xAA]))))
     ! (7 - 1) = OpWriteEnable"
proof -
  let ?w = "bench (chip small_geometry 0 (\<lambda>n. False)) [0xAA, 0xAA]"
  let ?ops = "new_ops (spi ?w) (spi (snd (write_to_spi ''img'' 0 0 ?w)))"
  have ops: "?ops = [OpWriteEnable, OpRead 0 8, OpWriteEnable, OpEraseSector 0,
        OpWriteEnable, OpProgramPage 0 [0xAA, 0xAA], OpWriteEnable, OpProgramPage 2 [0, 0]]"
    by (simp add: small_run_defs)
  have h: "7 < length ?ops" "is_modify (?ops ! 7)"
    unfolding ops by simp_all
  from write_enable_before_each_command [of "''img''" 0 0 ?w, THEN conjunct2, rule_format, OF h]
  have "?ops ! (7 - 1) = OpWriteEnable"
    by simp
  moreover have "spi ?w = chip small_geometry 0 (\<lambda>n. False)"
    by (simp add: bench_def)
  ultimately show ?thesis
    using ops by simp
qed

subsection \<open>C2: the force mode\<close>

text \<open>
  \<^verbatim>\<open>write_to_spi\<close> does not read the variable \<^verbatim>\<open>force\<close>: whatever its value, the result and
  every other part of the world are the same.
\<close>

lemma force_update_commutes:
  "open_input filename (w\<lparr>force := k\<rparr>) = open_input filename w"
  "eprint m (w\<lparr>force := k\<rparr>) = (eprint m w)\<lparr>force := k\<rparr>"
  "vprint m (w\<lparr>force := k\<rparr>) = (vprint m w)\<lparr>force := k\<rparr>"
  "(w\<lparr>force := k\<rparr>)\<lparr>spi := sp\<rparr> = (w\<lparr>spi := sp\<rparr>)\<lparr>force := k\<rparr>"
  by (simp_all add: open_input_def eprint_def vprint_def print_def)

lemma force_is_not_read:
  "write_to_spi filename offset length0 (w\<lparr>force := k\<rparr>) =
     (fst (write_to_spi filename offset length0 w),
      (snd (write_to_spi filename offset length0 w))\<lparr>force := k\<rparr>)"
proof (cases "open_input filename w")
  case None
  then show ?thesis
    by (simp add: write_to_spi_def force_update_commutes)
next
  case (Some input)
  obtain r1 sp1 where we: "spiflash_write_enable (spi w) = (r1, sp1)"
    by (cases "spiflash_write_enable (spi w)")
  obtain r2 sp2 where pb: "spiflash_program_buffer sp1 offset
      (fread_buf (spiflash_size (spi w)) input)
      (if length0 = 0 then word_of_nat (length (fread_bytes (spiflash_size (spi w)) input))
       else length0) = (r2, sp2)"
    by (cases "spiflash_program_buffer sp1 offset
      (fread_buf (spiflash_size (spi w)) input)
      (if length0 = 0 then word_of_nat (length (fread_bytes (spiflash_size (spi w)) input))
       else length0)")
  show ?thesis
    using Some we pb
    by (cases r1; cases r2; cases "length0 = 0")
      (simp_all add: write_to_spi_def force_update_commutes Let_def del: world.update_convs)
qed

text \<open>
  C2 (for every write request with force=true, an erase and a program operation are issued
  for every page in the target range, regardless of the chip's current content, even when
  it already equals the payload): \<^verbatim>\<open>-f\<close> only increments \<^verbatim>\<open>force\<close>, and no call passes it
  on. On the small chip holding \<open>AA\<close> everywhere, \<^verbatim>\<open>-f -w img\<close> with an image of four bytes
  \<open>AA\<close> succeeds with \<^verbatim>\<open>force\<close> set and issues one write-enable and one read: no erase, no
  program.
\<close>

theorem forced_write_skips_equal_pages:
  "fst (main [OptF, OptW ''img''] 0
          (bench (chip small_geometry 0xAA (\<lambda>n. False)) [0xAA, 0xAA, 0xAA, 0xAA])) = EXIT_SUCCESS \<and>
   force (snd (main [OptF, OptW ''img''] 0
          (bench (chip small_geometry 0xAA (\<lambda>n. False)) [0xAA, 0xAA, 0xAA, 0xAA]))) = 1 \<and>
   hw_log (spi (snd (main [OptF, OptW ''img''] 0
          (bench (chip small_geometry 0xAA (\<lambda>n. False)) [0xAA, 0xAA, 0xAA, 0xAA]))))
     = [OpWriteEnable, OpRead 0 8]"
  by (simp add: small_run_defs)

subsection \<open>C3: the rewrite of an erased sector\<close>

text \<open>
  C3 (for every write with force=false, if any byte within a sector requires a 0-to-1 bit
  transition, then after the write completes every page of that sector holds the
  corresponding bytes of the desired image: the whole sector is reprogrammed from the
  desired image, not only the changed page). The desired image is the payload laid at the
  offset over the content of the chip. A byte needs a 0-to-1 transition when the AND of the
  current and the desired byte is not the desired byte. For a write in range that returns
  \<^verbatim>\<open>EXIT_SUCCESS\<close> and a sector \<open>s\<close> with such a byte \<open>b\<close>: every byte of the sector holds the
  desired image, the sector was erased, and each of its pages was programmed with its slice
  of the desired image.
\<close>

theorem sector_rewritten_from_desired:
  assumes ok: "geometry_ok (geometry (spi w))"
    and inp: "open_input filename w = Some input"
    and range: "unat offset + length (fread_bytes (spiflash_size (spi w)) input)
                  \<le> unat (spiflash_size (spi w))"
    and fin: "fst (write_to_spi filename offset length0 w) = EXIT_SUCCESS"
    and sector: "s mod unat (sector_size (geometry (spi w))) = 0"
      "s < unat (total_size (geometry (spi w)))"
    and b: "s \<le> b" "b < s + unat (sector_size (geometry (spi w)))"
    and need: "cells (spi w) b AND
                 desired_cell (cells (spi w)) (unat offset)
                   (fread_bytes (spiflash_size (spi w)) input) b
               \<noteq> desired_cell (cells (spi w)) (unat offset)
                   (fread_bytes (spiflash_size (spi w)) input) b"
  shows "(\<forall>a. s \<le> a \<and> a < s + unat (sector_size (geometry (spi w))) \<longrightarrow>
            cells (spi (snd (write_to_spi filename offset length0 w))) a =
            desired_cell (cells (spi w)) (unat offset)
              (fread_bytes (spiflash_size (spi w)) input) a) \<and>
         OpEraseSector s \<in>
            set (new_ops (spi w) (spi (snd (write_to_spi filename offset length0 w)))) \<and>
         (\<forall>p\<in>set (sector_pages (geometry (spi w)) s).
            OpProgramPage p
              (map (desired_cell (cells (spi w)) (unat offset)
                      (fread_bytes (spiflash_size (spi w)) input))
                 [p ..< p + unat (page_size (geometry (spi w)))])
            \<in> set (new_ops (spi w) (spi (snd (write_to_spi filename offset length0 w)))))"
proof -
  let ?g = "geometry (spi w)"
  let ?T = "unat (total_size ?g)" and ?S = "unat (sector_size ?g)" and ?n = "unat (page_size ?g)"
  let ?data = "fread_bytes (spiflash_size (spi w)) input"
  let ?D = "desired_cell (cells (spi w)) (unat offset) ?data"
  let ?current = "map (cells (spi w)) [0 ..< ?T]"
  let ?desired = "desired_image ?current (unat offset) ?data"
  let ?ops = "new_ops (spi w) (spi (snd (write_to_spi filename offset length0 w)))"
  note st = write_success_state [OF ok inp range fin]
  have fits: "unat offset + length ?data \<le> length ?current"
    using range by (simp add: spiflash_size_def)
  have dlen: "length ?desired = ?T"
    using desired_image_length [OF fits] by simp
  have dn: "?desired ! a = ?D a" if "a < ?T" for a
    using desired_image_nth [OF fits, of a] that by (simp add: desired_cell_def)
  have S: "0 < ?S" and T: "(?T div ?S) * ?S = ?T"
    using ok by (auto simp: geometry_ok_def)
  have sj: "(s div ?S) * ?S = s"
    using sector(1) by auto
  have j: "s div ?S < ?T div ?S"
    using sector(2) S T sj by (metis mult_less_cancel2)
  then have "Suc (s div ?S) * ?S \<le> (?T div ?S) * ?S"
    by (intro mult_le_mono1) simp
  then have sfit: "s + ?S \<le> ?T"
    using sj T by simp
  have bT: "b < ?T"
    using b(2) sfit by simp
  have "plan_sector ?current ?desired ?g False s =
      map (\<lambda>p. mk_op ?desired ?n (p = s) p) (sector_pages ?g s)"
    by (rule plan_sector_erase [OF ok _ _ b])
      (use sfit dlen need bT dn [OF bT] in simp_all)
  moreover have "set (plan_sector ?current ?desired ?g False s) \<subseteq> set (plan ?current ?desired ?g False)"
    using plan_contains [of "s div ?S" ?desired ?g ?current] j sj dlen by simp
  ultimately have inplan: "mk_op ?desired ?n (p = s) p \<in> set (plan ?current ?desired ?g False)"
    if "p \<in> set (sector_pages ?g s)" for p
    using that by auto
  have cmds: "set (op_cmds ?g (mk_op ?desired ?n (p = s) p)) \<subseteq> set ?ops"
    if "p \<in> set (sector_pages ?g s)" for p
    using inplan [OF that] unfolding st(2) by auto
  have first: "s \<in> set (sector_pages ?g s)"
    using sector_pages_first [OF ok, of s] by auto
  have "OpEraseSector (sector_base ?g s) \<in> set ?ops"
    using cmds [OF first] op_cmds_erase [of "mk_op ?desired ?n True s" ?g]
    by (auto simp: mk_op_sel)
  then have erase: "OpEraseSector s \<in> set ?ops"
    by (simp add: sector_base_aligned [OF sector(1)])
  have prog: "OpProgramPage p (map ?D [p ..< p + ?n]) \<in> set ?ops"
    if p: "p \<in> set (sector_pages ?g s)" for p
  proof -
    have pfit: "p + ?n \<le> ?T"
      using sector_pages_within [OF ok p] sfit by simp
    have "page_slice ?desired p ?n = map ?D [p ..< p + ?n]"
      using pfit dlen dn
      by (intro nth_equalityI) (simp_all add: page_slice_length page_slice_nth)
    then show ?thesis
      using cmds [OF p] op_cmds_program [of "mk_op ?desired ?n (p = s) p" ?g]
      by (auto simp: mk_op_sel)
  qed
  from st(1) erase prog show ?thesis
    by blast
qed

text \<open>
  The small chip holds \<open>0F\<close> everywhere and \<open>F0 F0\<close> is written at offset 0. Byte 0 needs
  the transition, the first sector is erased, and its second page, which the payload does
  not cover, is programmed back to \<open>0F 0F\<close>.
\<close>

theorem sector_rewritten_from_desired_witness:
  "geometry_ok small_geometry \<and>
   fst (write_to_spi ''img'' 0 0 (bench (chip small_geometry 0x0F (\<lambda>n. False)) [0xF0, 0xF0])) =
     EXIT_SUCCESS \<and>
   (0x0F :: byte) AND 0xF0 \<noteq> 0xF0 \<and>
   map (cells (spi (snd (write_to_spi ''img'' 0 0
          (bench (chip small_geometry 0x0F (\<lambda>n. False)) [0xF0, 0xF0]))))) [0, 1, 2, 3] =
     [0xF0, 0xF0, 0x0F, 0x0F] \<and>
   OpEraseSector 0 \<in> set (new_ops (chip small_geometry 0x0F (\<lambda>n. False))
      (spi (snd (write_to_spi ''img'' 0 0
          (bench (chip small_geometry 0x0F (\<lambda>n. False)) [0xF0, 0xF0]))))) \<and>
   OpProgramPage 2 [0x0F, 0x0F] \<in> set (new_ops (chip small_geometry 0x0F (\<lambda>n. False))
      (spi (snd (write_to_spi ''img'' 0 0
          (bench (chip small_geometry 0x0F (\<lambda>n. False)) [0xF0, 0xF0])))))"
proof -
  let ?w = "bench (chip small_geometry 0x0F (\<lambda>n. False)) [0xF0, 0xF0]"
  let ?D = "desired_cell (cells (spi ?w)) (unat (0 :: u32))
              (fread_bytes (spiflash_size (spi ?w)) [0xF0, 0xF0])"
  have sp: "spi ?w = chip small_geometry 0x0F (\<lambda>n. False)"
    by (simp add: bench_def)
  have ok: "geometry_ok (geometry (spi ?w))"
    and inp: "open_input ''img'' ?w = Some [0xF0, 0xF0]"
    and range: "unat (0 :: u32) + length (fread_bytes (spiflash_size (spi ?w)) [0xF0, 0xF0])
                  \<le> unat (spiflash_size (spi ?w))"
    and sector: "0 mod unat (sector_size (geometry (spi ?w))) = 0"
      "0 < unat (total_size (geometry (spi ?w)))"
    and b: "(0 :: nat) \<le> 0" "0 < 0 + unat (sector_size (geometry (spi ?w)))"
    and need: "cells (spi ?w) 0 AND ?D 0 \<noteq> ?D 0"
    by (simp_all add: run_defs)
  have fin: "fst (write_to_spi ''img'' 0 0 ?w) = EXIT_SUCCESS"
    by (simp add: small_run_defs)
  note r = sector_rewritten_from_desired [OF ok inp range fin sector b need]
  have pages: "sector_pages (geometry (spi ?w)) 0 = [0, 2]"
    by (simp add: small_run_defs)
  have D: "map ?D [0, 1, 2, 3] = [0xF0, 0xF0, 0x0F, 0x0F]"
    by (simp add: run_defs)
  have "map (cells (spi (snd (write_to_spi ''img'' 0 0 ?w)))) [0, 1, 2, 3] = map ?D [0, 1, 2, 3]"
    using r [THEN conjunct1] by (simp add: run_defs)
  moreover have "OpProgramPage 2 (map ?D [2 ..< 2 + unat (page_size (geometry (spi ?w)))])
      \<in> set (new_ops (spi ?w) (spi (snd (write_to_spi ''img'' 0 0 ?w))))"
    using r [THEN conjunct2, THEN conjunct2] pages by simp
  moreover have "map ?D [2 ..< 2 + unat (page_size (geometry (spi ?w)))] = [0x0F, 0x0F]"
    by (simp add: small_run_defs)
  moreover have "geometry_ok small_geometry" "(0x0F :: byte) AND 0xF0 \<noteq> 0xF0"
    by (simp_all add: run_defs)
  ultimately show ?thesis
    using fin r [THEN conjunct2, THEN conjunct1] D sp by simp
qed

subsection \<open>C4: writing the same payload again\<close>

text \<open>
  The repeated write: \<open>w\<close> is the world of the first write, which is in range and returns
  \<^verbatim>\<open>EXIT_SUCCESS\<close>; \<open>w2\<close> is any world with the handle as the first write left it and
  the same input. None of the operations the second write issues is an erase or a program:
  it issues its write-enable and the read of the current content, and every page then
  equals its desired page.
\<close>

lemma repeated_write_is_idle:
  assumes ok: "geometry_ok (geometry (spi w))"
    and inp: "open_input filename w = Some input"
    and range: "unat offset + length (fread_bytes (spiflash_size (spi w)) input)
                  \<le> unat (spiflash_size (spi w))"
    and fin: "fst (write_to_spi filename offset length0 w) = EXIT_SUCCESS"
    and again: "spi w2 = spi (snd (write_to_spi filename offset length0 w))"
      "open_input filename w2 = Some input"
  shows "\<forall>c\<in>set (new_ops (spi w2) (spi (snd (write_to_spi filename offset length0 w2)))).
           \<not> is_modify c"
proof -
  let ?fs = "spiflash_size (spi w)"
  let ?data = "fread_bytes ?fs input"
  let ?len = "word_of_nat (length ?data) :: u32"
  let ?r2 = "write_to_spi filename offset length0 w2"
  have g2: "geometry (spi w2) = geometry (spi w)"
    using again(1) write_to_spi_geometry by simp
  then have fs2: "spiflash_size (spi w2) = ?fs"
    by (simp add: spiflash_size_def)
  have c2: "cells (spi w2) a = desired_cell (cells (spi w)) (unat offset) ?data a" for a
    using write_success_state(1) [OF ok inp range fin] again(1) by simp
  have ulen: "unat ?len = length ?data"
    by (rule fread_bytes_unat)
  have same: "cells (spi w2) (unat offset + i) = fread_buf ?fs input ! i" if "i < unat ?len" for i
    using that c2 [of "unat offset + i"] ulen
    by (simp add: desired_cell_def fread_buf_def nth_append)
  have idle: "new_ops (spi w2) (snd (enable_and_program (spi w2) offset (fread_buf ?fs input) ?len))
        = [OpWriteEnable] \<or>
      new_ops (spi w2) (snd (enable_and_program (spi w2) offset (fread_buf ?fs input) ?len))
        = [OpWriteEnable, OpRead 0 (unat (total_size (geometry (spi w2))))]"
    by (rule enable_and_program_idle)
      (use range ulen g2 same in \<open>simp_all add: spiflash_size_def fread_buf_def\<close>)
  from write_to_spi_handle [of filename offset length0 w2]
  have "new_ops (spi w2) (spi (snd ?r2)) = [] \<or>
        spi (snd ?r2) = snd (enable_and_program (spi w2) offset (fread_buf ?fs input) ?len)"
    using again(2) fs2 by (auto simp: new_ops_def)
  with idle show ?thesis
    by auto
qed

text \<open>
  C4 (for every payload and offset, with force=false: after a successful write of the
  payload, an immediately repeated write of the same payload at the same offset issues zero
  erase and zero program operations, because for every page whose current content already
  equals the desired content no erase or program command is issued for that page): the
  clause about every page fails as stated. On the small chip holding \<open>0F\<close>, with
  \<^verbatim>\<open>force\<close> zero, \<open>F0 F0\<close> is written at offset 0. The page at 2 already equals its desired
  page, and yet its sector is erased and the page is programmed, because the page at 0 of
  the same sector needs the erase.
\<close>

theorem equal_page_reprogrammed_counterexample:
  "force (bench (chip small_geometry 0x0F (\<lambda>n. False)) [0xF0, 0xF0]) = 0 \<and>
   fst (write_to_spi ''img'' 0 0 (bench (chip small_geometry 0x0F (\<lambda>n. False)) [0xF0, 0xF0])) =
     EXIT_SUCCESS \<and>
   map (cells (spi (bench (chip small_geometry 0x0F (\<lambda>n. False)) [0xF0, 0xF0]))) [2, 3] =
     map (desired_cell (cells (spi (bench (chip small_geometry 0x0F (\<lambda>n. False)) [0xF0, 0xF0])))
            0 [0xF0, 0xF0]) [2, 3] \<and>
   OpEraseSector 0 \<in> set (new_ops (spi (bench (chip small_geometry 0x0F (\<lambda>n. False)) [0xF0, 0xF0]))
      (spi (snd (write_to_spi ''img'' 0 0
          (bench (chip small_geometry 0x0F (\<lambda>n. False)) [0xF0, 0xF0]))))) \<and>
   OpProgramPage 2 [0x0F, 0x0F] \<in>
     set (new_ops (spi (bench (chip small_geometry 0x0F (\<lambda>n. False)) [0xF0, 0xF0]))
      (spi (snd (write_to_spi ''img'' 0 0
          (bench (chip small_geometry 0x0F (\<lambda>n. False)) [0xF0, 0xF0])))))"
  by (simp add: small_run_defs)

text \<open>
  C4 as amended: for a write in range, (1) after a successful write of the payload, the
  repeated write of the same payload at the same offset issues no erase and no program; and
  (2) in any write, for every page whose current content equals the desired content and
  whose sector holds no byte that requires a 0-to-1 transition, no erase of its sector and
  no program of the page is issued.
\<close>

theorem repeated_write_skips_settled_pages:
  assumes ok: "geometry_ok (geometry (spi w))"
    and inp: "open_input filename w = Some input"
    and range: "unat offset + length (fread_bytes (spiflash_size (spi w)) input)
                  \<le> unat (spiflash_size (spi w))"
  shows "(fst (write_to_spi filename offset length0 w) = EXIT_SUCCESS \<and>
          spi w2 = spi (snd (write_to_spi filename offset length0 w)) \<and>
          open_input filename w2 = Some input \<longrightarrow>
          (\<forall>c\<in>set (new_ops (spi w2) (spi (snd (write_to_spi filename offset length0 w2)))).
             \<not> is_modify c)) \<and>
         (\<forall>s p.
            s mod unat (sector_size (geometry (spi w))) = 0 \<and>
            s < unat (total_size (geometry (spi w))) \<and>
            (\<forall>b. s \<le> b \<and> b < s + unat (sector_size (geometry (spi w))) \<longrightarrow>
               cells (spi w) b AND
                 desired_cell (cells (spi w)) (unat offset)
                   (fread_bytes (spiflash_size (spi w)) input) b
               = desired_cell (cells (spi w)) (unat offset)
                   (fread_bytes (spiflash_size (spi w)) input) b) \<and>
            p \<in> set (sector_pages (geometry (spi w)) s) \<and>
            (\<forall>a. p \<le> a \<and> a < p + unat (page_size (geometry (spi w))) \<longrightarrow>
               cells (spi w) a =
                 desired_cell (cells (spi w)) (unat offset)
                   (fread_bytes (spiflash_size (spi w)) input) a) \<longrightarrow>
            OpEraseSector s \<notin>
              set (new_ops (spi w) (spi (snd (write_to_spi filename offset length0 w)))) \<and>
            (\<forall>d. OpProgramPage p d \<notin>
              set (new_ops (spi w) (spi (snd (write_to_spi filename offset length0 w))))))"
proof (intro conjI impI allI)
  assume "fst (write_to_spi filename offset length0 w) = EXIT_SUCCESS \<and>
          spi w2 = spi (snd (write_to_spi filename offset length0 w)) \<and>
          open_input filename w2 = Some input"
  then show "\<forall>c\<in>set (new_ops (spi w2) (spi (snd (write_to_spi filename offset length0 w2)))).
             \<not> is_modify c"
    using repeated_write_is_idle [OF ok inp range] by blast
next
  fix s p
  assume h: "s mod unat (sector_size (geometry (spi w))) = 0 \<and>
            s < unat (total_size (geometry (spi w))) \<and>
            (\<forall>b. s \<le> b \<and> b < s + unat (sector_size (geometry (spi w))) \<longrightarrow>
               cells (spi w) b AND
                 desired_cell (cells (spi w)) (unat offset)
                   (fread_bytes (spiflash_size (spi w)) input) b
               = desired_cell (cells (spi w)) (unat offset)
                   (fread_bytes (spiflash_size (spi w)) input) b) \<and>
            p \<in> set (sector_pages (geometry (spi w)) s) \<and>
            (\<forall>a. p \<le> a \<and> a < p + unat (page_size (geometry (spi w))) \<longrightarrow>
               cells (spi w) a =
                 desired_cell (cells (spi w)) (unat offset)
                   (fread_bytes (spiflash_size (spi w)) input) a)"
  from h have al: "s mod unat (sector_size (geometry (spi w))) = 0"
    and s: "s < unat (total_size (geometry (spi w)))"
    and p: "p \<in> set (sector_pages (geometry (spi w)) s)"
    by simp_all
  from h have quiet: "cells (spi w) b AND
        desired_cell (cells (spi w)) (unat offset) (fread_bytes (spiflash_size (spi w)) input) b
      = desired_cell (cells (spi w)) (unat offset) (fread_bytes (spiflash_size (spi w)) input) b"
    if "s \<le> b" "b < s + unat (sector_size (geometry (spi w)))" for b
    using that by blast
  from h have same: "cells (spi w) a =
      desired_cell (cells (spi w)) (unat offset) (fread_bytes (spiflash_size (spi w)) input) a"
    if "p \<le> a" "a < p + unat (page_size (geometry (spi w)))" for a
    using that by blast
  have skip: "c \<noteq> OpEraseSector s \<and> (\<forall>d. c \<noteq> OpProgramPage p d)"
    if "c \<in> set (new_ops (spi w) (spi (snd (write_to_spi filename offset length0 w))))" for c
    by (rule equal_page_left_alone [OF ok inp range al s quiet p same that])
  from skip show "OpEraseSector s \<notin>
      set (new_ops (spi w) (spi (snd (write_to_spi filename offset length0 w))))"
    by blast
  fix d
  from skip show "OpProgramPage p d \<notin>
      set (new_ops (spi w) (spi (snd (write_to_spi filename offset length0 w))))"
    by blast
qed

text \<open>
  On the small chip, blank, \<open>AA AA\<close> is written at offset 0: one program of the page at
  0, no erase of the first sector and no program of the page at 2, which equals its desired
  page; and the write repeated on the world the first one has left issues two operations,
  neither an erase nor a program.
\<close>

theorem repeated_write_skips_settled_pages_witness:
  "geometry_ok small_geometry \<and>
   fst (write_to_spi ''img'' 0 0 (bench (chip small_geometry 0xFF (\<lambda>n. False)) [0xAA, 0xAA])) =
     EXIT_SUCCESS \<and>
   new_ops (spi (bench (chip small_geometry 0xFF (\<lambda>n. False)) [0xAA, 0xAA]))
     (spi (snd (write_to_spi ''img'' 0 0 (bench (chip small_geometry 0xFF (\<lambda>n. False)) [0xAA, 0xAA]))))
     = [OpWriteEnable, OpRead 0 8, OpWriteEnable, OpProgramPage 0 [0xAA, 0xAA]] \<and>
   OpEraseSector 0 \<notin> set (new_ops (spi (bench (chip small_geometry 0xFF (\<lambda>n. False)) [0xAA, 0xAA]))
     (spi (snd (write_to_spi ''img'' 0 0 (bench (chip small_geometry 0xFF (\<lambda>n. False)) [0xAA, 0xAA]))))) \<and>
   OpProgramPage 2 [0xFF, 0xFF] \<notin>
     set (new_ops (spi (bench (chip small_geometry 0xFF (\<lambda>n. False)) [0xAA, 0xAA]))
     (spi (snd (write_to_spi ''img'' 0 0 (bench (chip small_geometry 0xFF (\<lambda>n. False)) [0xAA, 0xAA]))))) \<and>
   list_all (\<lambda>c. \<not> is_modify c)
     (new_ops
        (spi (snd (write_to_spi ''img'' 0 0
                (bench (chip small_geometry 0xFF (\<lambda>n. False)) [0xAA, 0xAA]))))
        (spi (snd (write_to_spi ''img'' 0 0
                (snd (write_to_spi ''img'' 0 0
                   (bench (chip small_geometry 0xFF (\<lambda>n. False)) [0xAA, 0xAA]))))))) \<and>
   length (hw_log (spi (snd (write_to_spi ''img'' 0 0
                (snd (write_to_spi ''img'' 0 0
                   (bench (chip small_geometry 0xFF (\<lambda>n. False)) [0xAA, 0xAA]))))))) = 6"
proof -
  let ?w = "bench (chip small_geometry 0xFF (\<lambda>n. False)) [0xAA, 0xAA]"
  let ?w2 = "snd (write_to_spi ''img'' 0 0 ?w)"
  let ?D = "desired_cell (cells (spi ?w)) (unat (0 :: u32))
              (fread_bytes (spiflash_size (spi ?w)) [0xAA, 0xAA])"
  have ok: "geometry_ok (geometry (spi ?w))"
    and inp: "open_input ''img'' ?w = Some [0xAA, 0xAA]"
    and range: "unat (0 :: u32) + length (fread_bytes (spiflash_size (spi ?w)) [0xAA, 0xAA])
                  \<le> unat (spiflash_size (spi ?w))"
    by (simp_all add: run_defs)
  note r = repeated_write_skips_settled_pages [OF ok inp range, of 0]
  have fin: "fst (write_to_spi ''img'' 0 0 ?w) = EXIT_SUCCESS"
    by (simp add: small_run_defs)
  have again: "spi ?w2 = spi (snd (write_to_spi ''img'' 0 0 ?w))"
    "open_input ''img'' ?w2 = Some [0xAA, 0xAA]"
    by (simp_all add: small_run_defs)
  from r [of ?w2, THEN conjunct1] fin again
  have idle: "\<forall>c\<in>set (new_ops (spi ?w2) (spi (snd (write_to_spi ''img'' 0 0 ?w2)))). \<not> is_modify c"
    by blast
  have quiet: "\<forall>b. 0 \<le> b \<and> b < 0 + unat (sector_size (geometry (spi ?w))) \<longrightarrow>
      cells (spi ?w) b AND ?D b = ?D b"
    by (simp add: run_defs erased_byte_and)
  have same: "\<forall>a. 2 \<le> a \<and> a < 2 + unat (page_size (geometry (spi ?w))) \<longrightarrow>
      cells (spi ?w) a = ?D a"
    by (simp add: run_defs)
  have sec: "0 mod unat (sector_size (geometry (spi ?w))) = 0"
    "0 < unat (total_size (geometry (spi ?w)))"
    "2 \<in> set (sector_pages (geometry (spi ?w)) 0)"
    by (simp_all add: small_run_defs)
  from r [of ?w2, THEN conjunct2, rule_format, of 0 2] sec quiet same
  have skip: "OpEraseSector 0 \<notin> set (new_ops (spi ?w) (spi (snd (write_to_spi ''img'' 0 0 ?w))))"
    "OpProgramPage 2 [0xFF, 0xFF] \<notin>
       set (new_ops (spi ?w) (spi (snd (write_to_spi ''img'' 0 0 ?w))))"
    by blast+
  have ops: "new_ops (spi ?w) (spi (snd (write_to_spi ''img'' 0 0 ?w)))
      = [OpWriteEnable, OpRead 0 8, OpWriteEnable, OpProgramPage 0 [0xAA, 0xAA]]"
    by (simp add: small_run_defs)
  have len: "length (hw_log (spi (snd (write_to_spi ''img'' 0 0 ?w2)))) = 6"
    by (simp add: small_run_defs)
  have g: "geometry_ok small_geometry"
    by (simp add: run_defs)
  have la: "list_all (\<lambda>c. \<not> is_modify c)
      (new_ops (spi ?w2) (spi (snd (write_to_spi ''img'' 0 0 ?w2))))"
    using idle by (simp add: list_all_iff)
  from g fin ops skip la len show ?thesis
    by (intro conjI)
qed

subsection \<open>C7: what a read touches\<close>

text \<open>
  C7 (for every offset and length with \<open>offset + length \<le> total_size\<close>, the read accesses
  only flash addresses in \<open>[offset, offset+length)\<close>; every address outside is neither read
  nor modified): as stated this fails for the length zero, which \<^verbatim>\<open>read_from_spi\<close> replaces
  by \<open>flash_size - offset\<close>. On the small chip, the read with offset 0 and length 0 reads
  eight bytes, address 5 among them, and the interval \<open>[0, 0 + 0)\<close> is empty.
\<close>

theorem read_of_length_zero_counterexample:
  "unat (0 :: u32) + unat (0 :: u32) \<le>
     unat (spiflash_size (spi (bench (chip small_geometry 0xFF (\<lambda>n. False)) []))) \<and>
   list_ex (\<lambda>c. op_reads c 5)
     (new_ops (chip small_geometry 0xFF (\<lambda>n. False))
        (spi (snd (read_from_spi ''out'' 0 0 (bench (chip small_geometry 0xFF (\<lambda>n. False)) []))))) \<and>
   \<not> (unat (0 :: u32) \<le> 5 \<and> (5 :: nat) < unat (0 :: u32) + unat (0 :: u32))"
  by (simp add: run_defs)

text \<open>
  C7 as amended: for an offset and a length with \<open>offset + length \<le> total_size\<close>, the
  addresses a read accesses lie in \<open>[offset, offset+length)\<close> when the length is not zero
  and in \<open>[offset, total_size)\<close> when it is zero; the read issues no erase, no program and
  no write-enable, and the content of the chip is left as it was.
\<close>

theorem read_stays_in_its_range:
  assumes "unat offset + unat length0 \<le> unat (spiflash_size (spi w))"
  shows "cells (spi (snd (read_from_spi filename offset length0 w))) = cells (spi w) \<and>
     (\<forall>c\<in>set (new_ops (spi w) (spi (snd (read_from_spi filename offset length0 w)))).
        \<not> is_modify c \<and> c \<noteq> OpWriteEnable \<and>
        (\<forall>a. op_reads c a \<longrightarrow>
           unat offset \<le> a \<and>
           a < (if length0 = 0 then unat (spiflash_size (spi w))
                else unat offset + unat length0)))"
proof -
  let ?fs = "spiflash_size (spi w)"
  let ?len = "if length0 = 0 then ?fs - offset else length0"
  let ?r = "read_from_spi filename offset length0 w"
  have "unat offset \<le> unat ?fs"
    using assms by simp
  then have "unat (?fs - offset) = unat ?fs - unat offset"
    by (simp add: unat_sub word_le_nat_alt)
  then have bound: "unat offset + unat ?len =
      (if length0 = 0 then unat ?fs else unat offset + unat length0)"
    using assms by simp
  have "spi (snd ?r) = spi w \<or> spi (snd ?r) = issue (OpRead (unat offset) (unat ?len)) (spi w)"
    by (auto simp: read_from_spi_def Let_def spiflash_read_def te_read_def split: if_splits)
  then show ?thesis
  proof
    assume "spi (snd ?r) = spi w"
    then show ?thesis by (simp add: new_ops_def)
  next
    assume "spi (snd ?r) = issue (OpRead (unat offset) (unat ?len)) (spi w)"
    then have "cells (spi (snd ?r)) = cells (spi w)"
      and "new_ops (spi w) (spi (snd ?r)) = [OpRead (unat offset) (unat ?len)]"
      by (simp_all add: issue_def new_ops_def)
    with bound show ?thesis by auto
  qed
qed

text \<open>Two bytes from offset 6 of the small chip, and the rest of the chip from offset 6.\<close>

theorem read_stays_in_its_range_witness:
  "unat (6 :: u32) + unat (2 :: u32) \<le>
     unat (spiflash_size (spi (bench (chip small_geometry 0xFF (\<lambda>n. False)) []))) \<and>
   new_ops (spi (bench (chip small_geometry 0xFF (\<lambda>n. False)) []))
     (spi (snd (read_from_spi ''out'' 6 2 (bench (chip small_geometry 0xFF (\<lambda>n. False)) []))))
     = [OpRead 6 2] \<and>
   new_ops (spi (bench (chip small_geometry 0xFF (\<lambda>n. False)) []))
     (spi (snd (read_from_spi ''out'' 6 0 (bench (chip small_geometry 0xFF (\<lambda>n. False)) []))))
     = [OpRead 6 2] \<and>
   cells (spi (snd (read_from_spi ''out'' 6 2 (bench (chip small_geometry 0xFF (\<lambda>n. False)) []))))
     = cells (spi (bench (chip small_geometry 0xFF (\<lambda>n. False)) []))"
proof -
  let ?w = "bench (chip small_geometry 0xFF (\<lambda>n. False)) []"
  have h2: "unat (6 :: u32) + unat (2 :: u32) \<le> unat (spiflash_size (spi ?w))"
    by (simp add: run_defs)
  have ops2: "new_ops (spi ?w) (spi (snd (read_from_spi ''out'' 6 2 ?w))) = [OpRead 6 2]"
    by (simp add: run_defs)
  have ops0: "new_ops (spi ?w) (spi (snd (read_from_spi ''out'' 6 0 ?w))) = [OpRead 6 2]"
    by (simp add: run_defs)
  have "cells (spi (snd (read_from_spi ''out'' 6 2 ?w))) = cells (spi ?w)"
    using read_stays_in_its_range [OF h2, of "''out''"] by (rule conjunct1)
  with h2 ops2 ops0 show ?thesis
    by (intro conjI)
qed

end
